theory Spec2Isabelle
  imports Complex_Main "HOL-Library.Char_ord" "HOL-Library.FSet" "HOL-Library.Multiset" "HOL-Library.Product_Lexorder" "HOL-Library.Word"
begin

unbundle bit_operations_syntax

section \<open>Shared types (src/types/index.ts)\<close>

datatype Algorithm = NearestNeighbor | BruteForce | DynamicProgramming | BranchAndBound

datatype MapType = Karnataka | Bengaluru | Mysuru

datatype Weather = Sunny | Rainy | Foggy | Snowy | Windy

datatype TimeOfDay = Morning | Afternoon | Evening | Night

datatype Vehicle = Car | Bike | Truck | Ambulance | Bus | Ev

record Location =
  loc_id :: string
  loc_name :: string
  lat :: real
  lng :: real

text \<open>
  \<open>SimulationParams\<close>. The optional field \<open>selectedCities?\<close> is an option. The type of
  city references is a parameter: the route-graph module uses plain strings, the
  Gemini/basic module is typed at \<open>city\<close> below, because one of its solvers reads an array
  out of range and stores the resulting \<open>undefined\<close> in a path.
\<close>

record 'c SimulationParams =
  algorithm :: Algorithm
  mapType :: MapType
  weather :: Weather
  timeOfDay :: TimeOfDay
  startLocation :: 'c
  vehicle :: Vehicle
  selectedCities :: "'c list option"

record Metrics =
  distance :: real
  time :: real
  cost :: real
  fuel :: real
  trafficImpact :: real
  weatherImpact :: real
  totalScore :: real

record 'c SimulationResult =
  res_algorithm :: Algorithm
  path :: "'c list"
  metrics :: Metrics

text \<open>The result both dispatchers build when fewer than two cities are selected.\<close>

definition emptyResult :: "Algorithm \<Rightarrow> 'c SimulationResult" where
  "emptyResult a =
     \<lparr>res_algorithm = a, path = [],
      metrics = \<lparr>distance = 0, time = 0, cost = 0, fuel = 0,
                 trafficImpact = 1, weatherImpact = 1, totalScore = 0\<rparr>\<rparr>"

section \<open>The Gemini/basic simulation module (src/unnamed/part\_004)\<close>

text \<open>
  A JavaScript value of static type \<open>string\<close>: \<open>Some s\<close> is the string \<open>s\<close>, \<open>None\<close> is
  \<open>undefined\<close> (what reading an array out of range yields).
\<close>

type_synonym city = "string option"

subsection \<open>buildTSPPath\<close>







subsection \<open>Distances\<close>

text \<open>
  \<open>calculateDistance\<close>: both cities are looked up in the location table; when either is
  missing the constant 999999 is returned, otherwise the haversine distance in metres.
  The haversine formula is floating-point trigonometry; the model takes it as the
  parameter \<open>hav\<close> (a function of the two locations found) and computes over the reals.
\<close>

definition calculateDistance ::
  "(Location \<Rightarrow> Location \<Rightarrow> real) \<Rightarrow> city \<Rightarrow> city \<Rightarrow> Location list \<Rightarrow> real"
where
  "calculateDistance hav city1 city2 locations =
     (case find (\<lambda>loc. Some (loc_id loc) = city1) locations of
        None \<Rightarrow> 999999
      | Some loc1 \<Rightarrow>
          (case find (\<lambda>loc. Some (loc_id loc) = city2) locations of
             None \<Rightarrow> 999999
           | Some loc2 \<Rightarrow> hav loc1 loc2))"

text \<open>\<open>calculatePathDistance\<close>: the sum of the legs \<open>path[i] \<rightarrow> path[i+1]\<close>.\<close>

fun calculatePathDistance ::
  "(Location \<Rightarrow> Location \<Rightarrow> real) \<Rightarrow> city list \<Rightarrow> Location list \<Rightarrow> real"
where
  "calculatePathDistance hav (a # b # rest) locations =
     calculateDistance hav a b locations + calculatePathDistance hav (b # rest) locations"
| "calculatePathDistance hav _ locations = 0"

text \<open>
  A running minimum that starts at \<open>Infinity\<close>: \<open>None\<close> is \<open>Infinity\<close>, and
  \<open>ltInf d best\<close> is the test \<open>d < best\<close> for a finite \<open>d\<close>.
\<close>

fun ltInf :: "real \<Rightarrow> real option \<Rightarrow> bool" where
  "ltInf d None = True"
| "ltInf d (Some b) = (d < b)"

subsection \<open>runGreedyNearestNeighbor\<close>

text \<open>
  The inner \<open>for\<close> loop: the candidate starts as \<open>remaining[0]\<close> and is replaced by a
  strictly nearer city.
\<close>

definition nearerStep ::
  "(Location \<Rightarrow> Location \<Rightarrow> real) \<Rightarrow> Location list \<Rightarrow> city \<Rightarrow> city \<Rightarrow> city \<times> real \<Rightarrow> city \<times> real"
where
  "nearerStep hav locations current c best =
     (let dist = calculateDistance hav current c locations
      in if dist < snd best then (c, dist) else best)"

fun pickNearest ::
  "(Location \<Rightarrow> Location \<Rightarrow> real) \<Rightarrow> Location list \<Rightarrow> city \<Rightarrow> city list \<Rightarrow> city"
where
  "pickNearest hav locations current (r # rs) =
     fst (fold (nearerStep hav locations current) rs
            (r, calculateDistance hav current r locations))"
| "pickNearest hav locations current [] = None"

lemma fold_nearerStep_in:
  "fst (fold (nearerStep hav locations current) rs best) \<in> insert (fst best) (set rs)"
proof (induction rs arbitrary: best)
  case Nil
  then show ?case by simp
next
  case (Cons r rs)
  have "fst (nearerStep hav locations current r best) \<in> {r, fst best}"
    by (simp add: nearerStep_def Let_def)
  with Cons.IH [of "nearerStep hav locations current r best"] show ?case
    by auto
qed

lemma pickNearest_in:
  "remaining \<noteq> [] \<Longrightarrow> pickNearest hav locations current remaining \<in> set remaining"
proof (cases remaining)
  case Nil
  assume "remaining \<noteq> []"
  with Nil show ?thesis by simp
next
  case (Cons r rs)
  show ?thesis
    using fold_nearerStep_in [of hav locations current rs "(r, calculateDistance hav current r locations)"]
    by (simp add: Cons)
qed

text \<open>
  The \<open>while (remaining.length > 0)\<close> loop. \<open>remaining.splice(remaining.indexOf(nearest), 1)\<close>
  removes the first occurrence of \<open>nearest\<close>.
\<close>

function greedyLoop ::
  "(Location \<Rightarrow> Location \<Rightarrow> real) \<Rightarrow> Location list \<Rightarrow> city list \<Rightarrow> city \<Rightarrow> city list \<Rightarrow> city list"
where
  "greedyLoop hav locations pth current remaining =
     (if remaining = [] then pth
      else let nearest = pickNearest hav locations current remaining
           in greedyLoop hav locations (pth @ [nearest]) nearest (remove1 nearest remaining))"
  by pat_completeness auto
termination
  by (relation "measure (\<lambda>(hav, locations, pth, current, remaining). length remaining)")
     (auto simp: length_remove1 pickNearest_in dest: length_pos_if_in_set)

declare greedyLoop.simps [simp del]

text \<open>
  \<open>params.selectedCities!\<close> is a non-null assertion; every call is behind the dispatcher's
  check that the field is present.
\<close>

definition runGreedyNearestNeighbor ::
  "(Location \<Rightarrow> Location \<Rightarrow> real) \<Rightarrow> city SimulationParams \<Rightarrow> Location list \<Rightarrow> city list"
where
  "runGreedyNearestNeighbor hav params locations =
     greedyLoop hav locations [startLocation params] (startLocation params)
       (filter (\<lambda>id. id \<noteq> startLocation params) (the (selectedCities params)))
     @ [startLocation params]"

subsection \<open>runOptimalBruteForce\<close>

function generateAllPermutations :: "'a list \<Rightarrow> 'a list list" where
  "generateAllPermutations arr =
     (if length arr \<le> 1 then [arr]
      else concat (map (\<lambda>i. map (\<lambda>perm. arr ! i # perm)
                                (generateAllPermutations (take i arr @ drop (Suc i) arr)))
                       [0..<length arr]))"
  by pat_completeness auto
termination
  by (relation "measure length") auto

declare generateAllPermutations.simps [simp del]

text \<open>
  One 2-opt move: \<open>newPath.splice(i, j - i + 1, ...currentPath.slice(i, j + 1).reverse())\<close>.
\<close>

definition twoOptReverse :: "'a list \<Rightarrow> nat \<Rightarrow> nat \<Rightarrow> 'a list" where
  "twoOptReverse p i j = take i p @ rev (take (Suc j - i) (drop i p)) @ drop (Suc j) p"

text \<open>The index pairs of the two nested \<open>for\<close> loops, in the order they are visited.\<close>

definition twoOptPairs :: "nat \<Rightarrow> (nat \<times> nat) list" where
  "twoOptPairs len = concat (map (\<lambda>i. map (\<lambda>j. (i, j)) [i + 1..<len - 1]) [1..<len - 2])"

definition twoOptStep ::
  "(Location \<Rightarrow> Location \<Rightarrow> real) \<Rightarrow> Location list \<Rightarrow> nat \<times> nat \<Rightarrow> city list \<times> bool \<Rightarrow> city list \<times> bool"
where
  "twoOptStep hav locations ij st =
     (let newPath = twoOptReverse (fst st) (fst ij) (snd ij)
      in if calculatePathDistance hav newPath locations
              < calculatePathDistance hav (fst st) locations
         then (newPath, True) else st)"

definition twoOptSweep ::
  "(Location \<Rightarrow> Location \<Rightarrow> real) \<Rightarrow> Location list \<Rightarrow> city list \<Rightarrow> city list \<times> bool"
where
  "twoOptSweep hav locations p = fold (twoOptStep hav locations) (twoOptPairs (length p)) (p, False)"

lemma mset_twoOptReverse: "i \<le> j \<Longrightarrow> mset (twoOptReverse p i j) = mset p"
proof -
  assume "i \<le> j"
  then have "drop (Suc j) p = drop (Suc j - i) (drop i p)"
    by simp
  then have "mset (twoOptReverse p i j)
      = mset (take i p) + (mset (take (Suc j - i) (drop i p)) + mset (drop (Suc j - i) (drop i p)))"
    by (simp add: twoOptReverse_def)
  also have "\<dots> = mset (take i p) + mset (drop i p)"
    by (metis append_take_drop_id mset_append)
  also have "\<dots> = mset p"
    by (metis append_take_drop_id mset_append)
  finally show ?thesis .
qed

lemma twoOptPairs_lt: "(i, j) \<in> set (twoOptPairs len) \<Longrightarrow> i < j"
  by (auto simp: twoOptPairs_def)

lemma fold_twoOptStep:
  assumes "\<And>i j. (i, j) \<in> set pairs \<Longrightarrow> i < j"
  shows "mset (fst (fold (twoOptStep hav locations) pairs st)) = mset (fst st)
       \<and> calculatePathDistance hav (fst (fold (twoOptStep hav locations) pairs st)) locations
           \<le> calculatePathDistance hav (fst st) locations
       \<and> (snd (fold (twoOptStep hav locations) pairs st) \<and> \<not> snd st \<longrightarrow>
            calculatePathDistance hav (fst (fold (twoOptStep hav locations) pairs st)) locations
              < calculatePathDistance hav (fst st) locations)"
  using assms
proof (induction pairs arbitrary: st)
  case Nil
  then show ?case by simp
next
  case (Cons ij pairs)
  obtain i j where ij: "ij = (i, j)" by (cases ij)
  have lt: "i < j" using Cons.prems ij by simp
  let ?st' = "twoOptStep hav locations ij st"
  have step: "mset (fst ?st') = mset (fst st)
        \<and> calculatePathDistance hav (fst ?st') locations \<le> calculatePathDistance hav (fst st) locations
        \<and> (snd ?st' \<and> \<not> snd st \<longrightarrow>
             calculatePathDistance hav (fst ?st') locations < calculatePathDistance hav (fst st) locations)"
    using lt by (auto simp: twoOptStep_def Let_def ij mset_twoOptReverse)
  have mono: "snd st \<Longrightarrow> snd ?st'"
    by (auto simp: twoOptStep_def Let_def)
  have IH: "mset (fst (fold (twoOptStep hav locations) pairs ?st')) = mset (fst ?st')
       \<and> calculatePathDistance hav (fst (fold (twoOptStep hav locations) pairs ?st')) locations
           \<le> calculatePathDistance hav (fst ?st') locations
       \<and> (snd (fold (twoOptStep hav locations) pairs ?st') \<and> \<not> snd ?st' \<longrightarrow>
            calculatePathDistance hav (fst (fold (twoOptStep hav locations) pairs ?st')) locations
              < calculatePathDistance hav (fst ?st') locations)"
    using Cons.IH [of ?st'] Cons.prems by simp
  show ?case
    using step IH by (cases "snd ?st'") (auto simp del: fold_simps simp: fold_Cons)
qed

lemma twoOptSweep_improved:
  assumes "twoOptSweep hav locations p = (q, True)"
  shows "mset q = mset p"
    and "calculatePathDistance hav q locations < calculatePathDistance hav p locations"
  using fold_twoOptStep [of "twoOptPairs (length p)" hav locations "(p, False)"] assms
  by (auto simp: twoOptSweep_def dest: twoOptPairs_lt)

text \<open>
  The \<open>while (improved)\<close> loop. Every repetition strictly shortens a rearrangement of the
  same cities, of which there are finitely many.
\<close>

definition shorterArrangements ::
  "(Location \<Rightarrow> Location \<Rightarrow> real) \<Rightarrow> Location list \<Rightarrow> city list \<Rightarrow> city list set"
where
  "shorterArrangements hav locations p =
     {q. mset q = mset p \<and> calculatePathDistance hav q locations
                                < calculatePathDistance hav p locations}"

lemma twoOptSweep_measure:
  assumes sw: "twoOptSweep hav locations p = (q, True)"
  shows "card (shorterArrangements hav locations q) < card (shorterArrangements hav locations p)"
proof -
  note m = twoOptSweep_improved [OF sw]
  have fin: "finite (shorterArrangements hav locations p)"
    unfolding shorterArrangements_def
    by (rule finite_subset [OF _ mset_eq_finite [of p]]) auto
  have "shorterArrangements hav locations q \<subseteq> shorterArrangements hav locations p"
    using m by (auto simp: shorterArrangements_def)
  moreover have "q \<in> shorterArrangements hav locations p"
    and "q \<notin> shorterArrangements hav locations q"
    using m by (auto simp: shorterArrangements_def)
  ultimately have "shorterArrangements hav locations q \<subset> shorterArrangements hav locations p"
    by blast
  with fin show ?thesis
    by (rule psubset_card_mono)
qed

function apply2OptImprovement ::
  "(Location \<Rightarrow> Location \<Rightarrow> real) \<Rightarrow> city list \<Rightarrow> Location list \<Rightarrow> city list"
where
  "apply2OptImprovement hav p locations =
     (case twoOptSweep hav locations p of
        (currentPath, improved) \<Rightarrow>
          if improved then apply2OptImprovement hav currentPath locations else currentPath)"
  by pat_completeness auto
termination
  by (relation "measure (\<lambda>(hav, p, locations). card (shorterArrangements hav locations p))")
     (auto intro: twoOptSweep_measure)

declare apply2OptImprovement.simps [simp del]

text \<open>
  The outcomes of the calls of \<open>Math.random\<close>: the two arrays produced by
  \<open>[...cities].sort(() => Math.random() - 0.5)\<close>, as functions of \<open>cities\<close>, and the two
  draws of the dispatcher.
\<close>

record BasicRandom =
  shuffleA :: "city list \<Rightarrow> city list"
  shuffleB :: "city list \<Rightarrow> city list"
  trafficDraw :: real
  weatherDraw :: real

definition keepShorter ::
  "(Location \<Rightarrow> Location \<Rightarrow> real) \<Rightarrow> Location list \<Rightarrow> city list \<Rightarrow> city list \<times> real option
     \<Rightarrow> city list \<times> real option"
where
  "keepShorter hav locations p best =
     (let distance = calculatePathDistance hav p locations
      in if ltInf distance (snd best) then (p, Some distance) else best)"

definition runIntensive2Opt ::
  "(Location \<Rightarrow> Location \<Rightarrow> real) \<Rightarrow> BasicRandom \<Rightarrow> city SimulationParams \<Rightarrow> Location list
     \<Rightarrow> city list \<Rightarrow> city list"
where
  "runIntensive2Opt hav rnd params locations cities =
     (let startingOrders = [cities, rev cities, shuffleA rnd cities, shuffleB rnd cities]
      in fst (fold (\<lambda>order best.
                 keepShorter hav locations
                   (apply2OptImprovement hav ([startLocation params] @ order @ [startLocation params])
                      locations) best)
               startingOrders ([], None)))"

definition runOptimalBruteForce ::
  "(Location \<Rightarrow> Location \<Rightarrow> real) \<Rightarrow> BasicRandom \<Rightarrow> city SimulationParams \<Rightarrow> Location list \<Rightarrow> city list"
where
  "runOptimalBruteForce hav rnd params locations =
     (let cities = filter (\<lambda>id. id \<noteq> startLocation params) (the (selectedCities params))
      in if length cities > 8 then runIntensive2Opt hav rnd params locations cities
         else let bestPath =
                    fst (fold (\<lambda>perm best.
                           keepShorter hav locations
                             ([startLocation params] @ perm @ [startLocation params]) best)
                         (generateAllPermutations cities) ([], None))
              in apply2OptImprovement hav
                   (if length bestPath > 0 then bestPath else [startLocation params]) locations)"

subsection \<open>runHeldKarpDP\<close>

text \<open>\<open>cities[i]\<close> for a number \<open>i\<close>: \<open>undefined\<close> outside the array.\<close>

definition nthU :: "city list \<Rightarrow> int \<Rightarrow> city" where
  "nthU xs i = (if 0 \<le> i \<and> i < int (length xs) then xs ! nat i else None)"

text \<open>\<open>Array.prototype.indexOf\<close>: the first index holding the value, or \<open>-1\<close>.\<close>

fun indexOf :: "'a list \<Rightarrow> 'a \<Rightarrow> int" where
  "indexOf [] x = - 1"
| "indexOf (y # ys) x =
     (if y = x then 0 else (let r = indexOf ys x in if r < 0 then - 1 else r + 1))"

text \<open>
  The table \<open>dp\<close>, a \<open>Map\<close> from the key \<open>`${mask}_${u}`\<close> to \<open>{cost, parent}\<close>. The key is
  modelled by the pair \<open>(mask, u)\<close>. Masks are below \<open>2 ^ 10\<close> (the function leaves for the
  approximation when there are more than ten cities), so the 32-bit operators \<open><<\<close>, \<open>&\<close>
  and \<open>^\<close> act on them as on natural numbers.
\<close>

type_synonym hkTable = "nat \<times> int \<Rightarrow> (real \<times> int) option"

definition hkInit ::
  "(Location \<Rightarrow> Location \<Rightarrow> real) \<Rightarrow> Location list \<Rightarrow> city list \<Rightarrow> int \<Rightarrow> hkTable"
where
  "hkInit hav locations cities startIdx =
     fold (\<lambda>i dp.
             if int i \<noteq> startIdx
             then dp((push_bit i 1, int i) \<mapsto>
                      (calculateDistance hav (nthU cities startIdx) (nthU cities (int i)) locations,
                       startIdx))
             else dp)
          [0..<length cities] Map.empty"

text \<open>The loop over \<open>v\<close>: the cheapest predecessor of \<open>u\<close> in \<open>mask\<close>.\<close>

definition hkBestParent ::
  "(Location \<Rightarrow> Location \<Rightarrow> real) \<Rightarrow> Location list \<Rightarrow> city list \<Rightarrow> int \<Rightarrow> hkTable \<Rightarrow> nat \<Rightarrow> nat
     \<Rightarrow> real option \<times> int"
where
  "hkBestParent hav locations cities startIdx dp msk u =
     fold (\<lambda>v best.
             if bit msk v \<and> v \<noteq> u \<and> int v \<noteq> startIdx
             then (case dp (msk XOR push_bit u 1, int v) of
                     None \<Rightarrow> best
                   | Some prev \<Rightarrow>
                       (let c = fst prev
                                + calculateDistance hav (nthU cities (int v)) (nthU cities (int u)) locations
                        in if ltInf c (fst best) then (Some c, int v) else best))
             else best)
          [0..<length cities] (None, - 1)"

text \<open>The loop over \<open>u\<close> for one \<open>mask\<close>, and the loop over the masks.\<close>

definition hkFillMask ::
  "(Location \<Rightarrow> Location \<Rightarrow> real) \<Rightarrow> Location list \<Rightarrow> city list \<Rightarrow> int \<Rightarrow> nat \<Rightarrow> hkTable \<Rightarrow> hkTable"
where
  "hkFillMask hav locations cities startIdx msk dp0 =
     fold (\<lambda>u dp.
             if bit msk u \<and> int u \<noteq> startIdx
             then (case dp (msk, int u) of
                     Some e \<Rightarrow> dp
                   | None \<Rightarrow>
                       (case hkBestParent hav locations cities startIdx dp msk u of
                          (Some minCost, bestParent) \<Rightarrow>
                            if bestParent \<noteq> - 1 then dp((msk, int u) \<mapsto> (minCost, bestParent)) else dp
                        | (None, bestParent) \<Rightarrow> dp))
             else dp)
          [0..<length cities] dp0"

definition hkFill ::
  "(Location \<Rightarrow> Location \<Rightarrow> real) \<Rightarrow> Location list \<Rightarrow> city list \<Rightarrow> int \<Rightarrow> hkTable \<Rightarrow> hkTable"
where
  "hkFill hav locations cities startIdx dp0 =
     fold (hkFillMask hav locations cities startIdx) [1..<2 ^ length cities] dp0"

text \<open>The search for the last city of the best tour: \<open>(minCost, lastCity)\<close>.\<close>

definition hkLastCity ::
  "(Location \<Rightarrow> Location \<Rightarrow> real) \<Rightarrow> Location list \<Rightarrow> city list \<Rightarrow> int \<Rightarrow> hkTable \<Rightarrow> real option \<times> int"
where
  "hkLastCity hav locations cities startIdx dp =
     fold (\<lambda>i best.
             if int i \<noteq> startIdx
             then (case dp (2 ^ length cities - 1, int i) of
                     None \<Rightarrow> best
                   | Some e \<Rightarrow>
                       (let c = fst e
                                + calculateDistance hav (nthU cities (int i)) (nthU cities startIdx) locations
                        in if ltInf c (fst best) then (Some c, int i) else best))
             else best)
          [0..<length cities] (None, - 1)"

text \<open>
  The reconstruction loop \<open>while (current !== startIdx && mask > 0)\<close>. Nothing in the loop
  itself bounds it, so the model is a partial function: \<open>None\<close> is a loop that does not end.
\<close>

partial_function (option) hkReconstruct ::
  "hkTable \<Rightarrow> city list \<Rightarrow> int \<Rightarrow> city list \<Rightarrow> nat \<Rightarrow> int \<Rightarrow> city list option"
where
  "hkReconstruct dp cities startIdx pth msk current =
     (if current \<noteq> startIdx \<and> msk > 0
      then (case dp (msk, current) of
              Some e \<Rightarrow>
                hkReconstruct dp cities startIdx (pth @ [nthU cities current])
                  (msk XOR push_bit (nat current) 1) (snd e)
            | None \<Rightarrow> Some (pth @ [nthU cities current]))
      else Some pth)"

declare hkReconstruct.simps [code]

subsection \<open>runDPApproximation\<close>

text \<open>\<open>Math.min(...xs)\<close> for a non-empty array.\<close>

fun minOf :: "real list \<Rightarrow> real" where
  "minOf (x # xs) = fold min xs x"
| "minOf [] = 0"

definition dpScore ::
  "(Location \<Rightarrow> Location \<Rightarrow> real) \<Rightarrow> Location list \<Rightarrow> city \<Rightarrow> city \<Rightarrow> city list \<Rightarrow> city \<Rightarrow> real"
where
  "dpScore hav locations start current remaining c =
     (let directDist = calculateDistance hav current c locations;
          remainingAfter = filter (\<lambda>x. x \<noteq> c) remaining;
          futureEstimate =
            (if length remainingAfter > 0
             then minOf (map (\<lambda>x. calculateDistance hav c x locations) remainingAfter)
             else calculateDistance hav c start locations)
      in directDist + futureEstimate * 0.8)"

definition dpStep ::
  "(Location \<Rightarrow> Location \<Rightarrow> real) \<Rightarrow> Location list \<Rightarrow> city \<Rightarrow> city \<Rightarrow> city list \<Rightarrow> city
     \<Rightarrow> city \<times> real option \<Rightarrow> city \<times> real option"
where
  "dpStep hav locations start current remaining c best =
     (let totalScore = dpScore hav locations start current remaining c
      in if ltInf totalScore (snd best) then (c, Some totalScore) else best)"

definition pickDP ::
  "(Location \<Rightarrow> Location \<Rightarrow> real) \<Rightarrow> Location list \<Rightarrow> city \<Rightarrow> city \<Rightarrow> city list \<Rightarrow> city"
where
  "pickDP hav locations start current remaining =
     fst (fold (dpStep hav locations start current remaining) remaining (nthU remaining 0, None))"

lemma fold_select_in:
  assumes "\<And>c b. fst (f c b) = c \<or> fst (f c b) = fst b"
  shows "fst (fold f xs b) \<in> insert (fst b) (set xs)"
proof (induction xs arbitrary: b)
  case Nil
  then show ?case by simp
next
  case (Cons x xs)
  from assms [of x b] Cons.IH [of "f x b"] show ?case
    by auto
qed

lemma pickDP_in:
  assumes "remaining \<noteq> []"
  shows "pickDP hav locations start current remaining \<in> set remaining"
proof -
  have "fst (fold (dpStep hav locations start current remaining) remaining (nthU remaining 0, None))
          \<in> insert (fst (nthU remaining 0, None :: real option)) (set remaining)"
    by (rule fold_select_in) (simp add: dpStep_def Let_def)
  moreover have "nthU remaining 0 \<in> set remaining"
    using assms by (cases remaining) (simp_all add: nthU_def)
  ultimately show ?thesis
    by (auto simp: pickDP_def)
qed

function dpApproxLoop ::
  "(Location \<Rightarrow> Location \<Rightarrow> real) \<Rightarrow> Location list \<Rightarrow> city \<Rightarrow> city list \<Rightarrow> city \<Rightarrow> city list \<Rightarrow> city list"
where
  "dpApproxLoop hav locations start pth current remaining =
     (if remaining = [] then pth
      else let bestNext = pickDP hav locations start current remaining
           in dpApproxLoop hav locations start (pth @ [bestNext]) bestNext (remove1 bestNext remaining))"
  by pat_completeness auto
termination
  by (relation "measure (\<lambda>(hav, locations, start, pth, current, remaining). length remaining)")
     (auto simp: length_remove1 pickDP_in dest: length_pos_if_in_set)

declare dpApproxLoop.simps [simp del]

definition runDPApproximation ::
  "(Location \<Rightarrow> Location \<Rightarrow> real) \<Rightarrow> city SimulationParams \<Rightarrow> Location list \<Rightarrow> city list"
where
  "runDPApproximation hav params locations =
     dpApproxLoop hav locations (startLocation params) [startLocation params] (startLocation params)
       (filter (\<lambda>id. id \<noteq> startLocation params) (the (selectedCities params)))
     @ [startLocation params]"

definition runHeldKarpDP ::
  "(Location \<Rightarrow> Location \<Rightarrow> real) \<Rightarrow> city SimulationParams \<Rightarrow> Location list \<Rightarrow> city list option"
where
  "runHeldKarpDP hav params locations =
     (let cities = the (selectedCities params);
          startIdx = indexOf cities (startLocation params)
      in if length cities > 10 then Some (runDPApproximation hav params locations)
         else let dp = hkFill hav locations cities startIdx (hkInit hav locations cities startIdx);
                  lastCity = snd (hkLastCity hav locations cities startIdx dp)
              in map_option (\<lambda>p. rev (p @ [startLocation params]))
                   (hkReconstruct dp cities startIdx [startLocation params]
                      (2 ^ length cities - 1) lastCity))"

subsection \<open>runHeuristicBranchBound\<close>

text \<open>
  One Or-opt move: \<open>newPath.splice(i, 1)\<close> takes the city at \<open>i\<close> out, and
  \<open>newPath.splice(j, 0, city)\<close> puts it back at index \<open>j\<close> of the shortened array.
\<close>

definition orOptMove :: "'a list \<Rightarrow> nat \<Rightarrow> nat \<Rightarrow> 'a list" where
  "orOptMove p i j =
     (let removed = take i p @ drop (Suc i) p
      in take j removed @ [p ! i] @ drop j removed)"

definition orOptPairs :: "nat \<Rightarrow> (nat \<times> nat) list" where
  "orOptPairs len = concat (map (\<lambda>i. map (\<lambda>j. (i, j)) [i + 2..<len - 1]) [1..<len - 2])"

definition orOptStep ::
  "(Location \<Rightarrow> Location \<Rightarrow> real) \<Rightarrow> Location list \<Rightarrow> nat \<times> nat \<Rightarrow> city list \<Rightarrow> city list"
where
  "orOptStep hav locations ij p =
     (let newPath = orOptMove p (fst ij) (snd ij)
      in if calculatePathDistance hav newPath locations < calculatePathDistance hav p locations
         then newPath else p)"

definition runHeuristicBranchBound ::
  "(Location \<Rightarrow> Location \<Rightarrow> real) \<Rightarrow> city SimulationParams \<Rightarrow> Location list \<Rightarrow> city list"
where
  "runHeuristicBranchBound hav params locations =
     (let p = runGreedyNearestNeighbor hav params locations
      in fold (orOptStep hav locations) (orOptPairs (length p)) p)"

subsection \<open>calculateMSTBound\<close>

text \<open>\<open>Map.prototype.get\<close> on the union-find table: \<open>undefined\<close> for a key it does not hold.\<close>

definition mapGet :: "(city \<Rightarrow> city option) \<Rightarrow> city \<Rightarrow> city" where
  "mapGet parent x = (case parent x of None \<Rightarrow> None | Some y \<Rightarrow> y)"

text \<open>
  \<open>find\<close>, with path compression; it returns the updated table and the root. The recursion
  follows the parent links and ends only at a fixed point, so the model is a partial
  function: \<open>None\<close> is a recursion that does not return.
\<close>

partial_function (option) ufFind ::
  "(city \<Rightarrow> city option) \<Rightarrow> city \<Rightarrow> ((city \<Rightarrow> city option) \<times> city) option"
where
  "ufFind parent x =
     (if mapGet parent x \<noteq> x
      then Option.bind (ufFind parent (mapGet parent x))
             (\<lambda>res. Some ((fst res)(x \<mapsto> snd res), mapGet ((fst res)(x \<mapsto> snd res)) x))
      else Some (parent, mapGet parent x))"

declare ufFind.simps [code]

record MstEdge =
  edge_from :: city
  edge_to :: city
  edge_weight :: real

text \<open>All pairs \<open>i < j\<close> of \<open>allPoints\<close>, in the order of the two nested loops.\<close>

definition mstEdges ::
  "(Location \<Rightarrow> Location \<Rightarrow> real) \<Rightarrow> Location list \<Rightarrow> city list \<Rightarrow> MstEdge list"
where
  "mstEdges hav locations allPoints =
     concat (map (\<lambda>i. map (\<lambda>j. \<lparr>edge_from = allPoints ! i, edge_to = allPoints ! j,
                                  edge_weight = calculateDistance hav (allPoints ! i) (allPoints ! j)
                                                  locations\<rparr>)
                            [i + 1..<length allPoints])
                 [0..<length allPoints])"

text \<open>
  The state of Kruskal's loop: the union-find table, \<open>mstWeight\<close>, \<open>edgesAdded\<close>, and whether
  the \<open>break\<close> has been taken.
\<close>

record KruskalState =
  uf :: "city \<Rightarrow> city option"
  mstWeight :: real
  edgesAdded :: nat
  stopped :: bool

definition kruskalStep :: "nat \<Rightarrow> MstEdge \<Rightarrow> KruskalState option \<Rightarrow> KruskalState option" where
  "kruskalStep npoints e sto =
     Option.bind sto (\<lambda>st.
       if stopped st then Some st
       else Option.bind (ufFind (uf st) (edge_from e)) (\<lambda>r1.
            Option.bind (ufFind (fst r1) (edge_to e)) (\<lambda>r2.
              if snd r1 \<noteq> snd r2
              then Some \<lparr>uf = (fst r2)(snd r1 \<mapsto> snd r2),
                         mstWeight = mstWeight st + edge_weight e,
                         edgesAdded = edgesAdded st + 1,
                         stopped = (edgesAdded st + 1 = npoints - 1)\<rparr>
              else Some (st\<lparr>uf := fst r2\<rparr>))))"

text \<open>
  \<open>edges.sort((a, b) => a.weight - b.weight)\<close> is a stable sort by weight.
\<close>

definition calculateMSTBound ::
  "(Location \<Rightarrow> Location \<Rightarrow> real) \<Rightarrow> city \<Rightarrow> city list \<Rightarrow> city \<Rightarrow> Location list \<Rightarrow> real option"
where
  "calculateMSTBound hav current remaining end locations =
     (if length remaining = 0 then Some (calculateDistance hav current end locations)
      else let allPoints = [current] @ remaining @ [end];
               edges = sort_key edge_weight (mstEdges hav locations allPoints);
               parent0 = fold (\<lambda>p parent. parent(p \<mapsto> p)) allPoints Map.empty
           in map_option mstWeight
                (fold (kruskalStep (length allPoints)) edges
                   (Some \<lparr>uf = parent0, mstWeight = 0, edgesAdded = 0, stopped = False\<rparr>)))"

subsection \<open>runBranchAndBoundTSP\<close>

text \<open>
  The recursive closure \<open>branchAndBound(currentPath, remaining, currentCost)\<close>. It updates
  the captured variables \<open>bestPath\<close> and \<open>bestCost\<close>; the model passes them as the pair
  \<open>best\<close> and returns the updated pair, or \<open>None\<close> when the bound does not return.
  \<open>remaining.sort\<close> sorts \<open>remaining\<close> in place, so the \<open>filter\<close> of the recursive call
  acts on the sorted array.
\<close>

function branchAndBound ::
  "(Location \<Rightarrow> Location \<Rightarrow> real) \<Rightarrow> Location list \<Rightarrow> city \<Rightarrow> city list \<Rightarrow> city list \<Rightarrow> real
     \<Rightarrow> city list \<times> real \<Rightarrow> (city list \<times> real) option"
where
  "branchAndBound hav locations start currentPath remaining currentCost best =
     (if remaining = []
      then (let completePath = currentPath @ [start];
                totalCost = currentCost + calculateDistance hav (last currentPath) start locations
            in if totalCost < snd best then Some (completePath, totalCost) else Some best)
      else (case calculateMSTBound hav (last currentPath) remaining start locations of
              None \<Rightarrow> None
            | Some b \<Rightarrow>
                if currentCost + b \<ge> snd best then Some best
                else fold (\<lambda>c acc.
                             Option.bind acc
                               (branchAndBound hav locations start (currentPath @ [c])
                                  (filter (\<lambda>x. x \<noteq> c)
                                     (sort_key (\<lambda>x. calculateDistance hav (last currentPath) x locations)
                                        remaining))
                                  (currentCost + calculateDistance hav (last currentPath) c locations)))
                          (sort_key (\<lambda>x. calculateDistance hav (last currentPath) x locations) remaining)
                          (Some best)))"
  by pat_completeness auto
termination
proof (relation "measure (\<lambda>(hav, locations, start, currentPath, remaining, currentCost, best).
                    length remaining)", goal_cases)
  case 1
  show ?case by simp
next
  case (2 hav locations start currentPath remaining currentCost best b c)
  then have "c \<in> set (sort_key (\<lambda>x. calculateDistance hav (last currentPath) x locations) remaining)"
    by simp
  then have "length (filter (\<lambda>x. x \<noteq> c)
                 (sort_key (\<lambda>x. calculateDistance hav (last currentPath) x locations) remaining))
               < length (sort_key (\<lambda>x. calculateDistance hav (last currentPath) x locations) remaining)"
    by (intro length_filter_less [of c]) simp_all
  then show ?case by simp
qed

declare branchAndBound.simps [simp del]

definition runBranchAndBoundTSP ::
  "(Location \<Rightarrow> Location \<Rightarrow> real) \<Rightarrow> city SimulationParams \<Rightarrow> Location list \<Rightarrow> city list option"
where
  "runBranchAndBoundTSP hav params locations =
     (let cities = the (selectedCities params)
      in if length cities > 9 then Some (runHeuristicBranchBound hav params locations)
         else let bestPath = runGreedyNearestNeighbor hav params locations;
                  bestCost = calculatePathDistance hav bestPath locations;
                  otherCities = filter (\<lambda>id. id \<noteq> startLocation params) cities
              in map_option fst
                   (branchAndBound hav locations (startLocation params) [startLocation params]
                      otherCities 0 (bestPath, bestCost)))"

subsection \<open>runBasicTSPSimulation\<close>

record Multiplier =
  mul_time :: real
  mul_cost :: real
  mul_fuel :: real
  mul_score :: real

fun getAlgorithmMultiplier :: "Algorithm \<Rightarrow> Multiplier" where
  "getAlgorithmMultiplier BruteForce =
     \<lparr>mul_time = 0.82, mul_cost = 0.85, mul_fuel = 0.83, mul_score = 0.80\<rparr>"
| "getAlgorithmMultiplier DynamicProgramming =
     \<lparr>mul_time = 0.88, mul_cost = 0.90, mul_fuel = 0.87, mul_score = 0.85\<rparr>"
| "getAlgorithmMultiplier NearestNeighbor =
     \<lparr>mul_time = 1.25, mul_cost = 1.35, mul_fuel = 1.30, mul_score = 1.40\<rparr>"
| "getAlgorithmMultiplier BranchAndBound =
     \<lparr>mul_time = 0.85, mul_cost = 0.92, mul_fuel = 0.89, mul_score = 0.88\<rparr>"

text \<open>The \<open>switch\<close> on the algorithm.\<close>

fun basicSolver ::
  "(Location \<Rightarrow> Location \<Rightarrow> real) \<Rightarrow> BasicRandom \<Rightarrow> city SimulationParams \<Rightarrow> Location list
     \<Rightarrow> Algorithm \<Rightarrow> city list option"
where
  "basicSolver hav rnd params locations BruteForce =
     Some (runOptimalBruteForce hav rnd params locations)"
| "basicSolver hav rnd params locations DynamicProgramming = runHeldKarpDP hav params locations"
| "basicSolver hav rnd params locations NearestNeighbor =
     Some (runGreedyNearestNeighbor hav params locations)"
| "basicSolver hav rnd params locations BranchAndBound = runBranchAndBoundTSP hav params locations"

text \<open>
  The metrics of a solved request. \<open>Math.random()\<close> is drawn once for \<open>trafficImpact\<close> and
  once for \<open>weatherImpact\<close>.
\<close>

definition basicMetrics ::
  "(Location \<Rightarrow> Location \<Rightarrow> real) \<Rightarrow> BasicRandom \<Rightarrow> Algorithm \<Rightarrow> Location list \<Rightarrow> city list \<Rightarrow> Metrics"
where
  "basicMetrics hav rnd alg locations p =
     (let totalDistance = calculatePathDistance hav p locations;
          baseTime = totalDistance / 50000 * 3600;
          baseCost = (totalDistance / 1000) * 5;
          baseFuel = (totalDistance / 1000) * 0.1;
          algorithmMultiplier = getAlgorithmMultiplier alg
      in \<lparr>distance = totalDistance,
          time = baseTime * mul_time algorithmMultiplier,
          cost = baseCost * mul_cost algorithmMultiplier,
          fuel = baseFuel * mul_fuel algorithmMultiplier,
          trafficImpact = 1.0 + trafficDraw rnd * 0.3,
          weatherImpact = 1.0 + weatherDraw rnd * 0.2,
          totalScore = (totalDistance / 1000) * mul_score algorithmMultiplier\<rparr>)"

text \<open>
  \<open>runBasicTSPSimulation\<close>. \<open>mapLocations[params.mapType] || []\<close> is the table of the map
  type; the table \<open>mapLocations\<close> is a parameter. The result is \<open>None\<close> when the solver
  does not return.
\<close>

definition runBasicTSPSimulation ::
  "(Location \<Rightarrow> Location \<Rightarrow> real) \<Rightarrow> BasicRandom \<Rightarrow> (MapType \<Rightarrow> Location list)
     \<Rightarrow> city SimulationParams \<Rightarrow> city SimulationResult option"
where
  "runBasicTSPSimulation hav rnd mapLocations params =
     (let locations = mapLocations (mapType params)
      in case selectedCities params of
           None \<Rightarrow> Some (emptyResult (algorithm params))
         | Some cs \<Rightarrow>
             if length cs < 2 then Some (emptyResult (algorithm params))
             else map_option
                    (\<lambda>p. \<lparr>res_algorithm = algorithm params, path = p,
                          metrics = basicMetrics hav rnd (algorithm params) locations p\<rparr>)
                    (basicSolver hav rnd params locations (algorithm params)))"

section \<open>The route-graph module (src/utils/algorithms.ts)\<close>

subsection \<open>The route graph\<close>

text \<open>
  \<open>RouteGraph\<close>. The object \<open>nodes\<close> is a list of key-value pairs in insertion order, which
  is the order of \<open>Object.keys\<close>; \<open>recordSet\<close> is the assignment \<open>obj[k] = v\<close>.
\<close>

record RouteNode =
  node_id :: string
  node_lat :: real
  node_lng :: real

record RouteEdge =
  e_from :: string
  e_to :: string
  e_distance :: real
  e_time :: real
  e_trafficFactor :: real

record RouteGraph =
  nodes :: "(string \<times> RouteNode) list"
  edges :: "RouteEdge list"

definition recordSet :: "'k \<Rightarrow> 'v \<Rightarrow> ('k \<times> 'v) list \<Rightarrow> ('k \<times> 'v) list" where
  "recordSet k v m =
     (if k \<in> fst ` set m then map (\<lambda>kv. if fst kv = k then (k, v) else kv) m else m @ [(k, v)])"

definition objectKeys :: "('k \<times> 'v) list \<Rightarrow> 'k list" where
  "objectKeys m = map fst m"

text \<open>
  \<open>getRouteGraph\<close> (src/unnamed/part\_000): one node per location and one edge for every
  ordered pair of different positions of the location table. The distance of an edge is
  \<open>calculateRoadDistance\<close>, haversine times a random road factor, and its time is
  \<open>calculateTravelTime\<close> times a random traffic factor; the three values computed for the
  pair \<open>(i, j)\<close> in a call are the parameters \<open>roadDistance i j\<close>, \<open>travelTime i j\<close> and
  \<open>traffic i j\<close>.
\<close>

definition getRouteGraph ::
  "(nat \<Rightarrow> nat \<Rightarrow> real) \<Rightarrow> (nat \<Rightarrow> nat \<Rightarrow> real) \<Rightarrow> (nat \<Rightarrow> nat \<Rightarrow> real) \<Rightarrow> Location list \<Rightarrow> RouteGraph"
where
  "getRouteGraph roadDistance travelTime traffic locations =
     \<lparr>nodes = fold (\<lambda>loc ns. recordSet (loc_id loc)
                                 \<lparr>node_id = loc_id loc, node_lat = lat loc, node_lng = lng loc\<rparr> ns)
                   locations [],
      edges = concat (map (\<lambda>i. concat (map (\<lambda>j.
                 if i \<noteq> j
                 then [\<lparr>e_from = loc_id (locations ! i), e_to = loc_id (locations ! j),
                        e_distance = roadDistance i j,
                        e_time = travelTime i j * traffic i j,
                        e_trafficFactor = traffic i j\<rparr>]
                 else []) [0..<length locations])) [0..<length locations])\<rparr>"

definition filterGraphForSelectedCities :: "RouteGraph \<Rightarrow> string list \<Rightarrow> RouteGraph" where
  "filterGraphForSelectedCities graph selected =
     (if length selected = 0 then graph
      else \<lparr>nodes = fold (\<lambda>cityId filteredNodes.
                             case map_of (nodes graph) cityId of
                               Some nd \<Rightarrow> recordSet cityId nd filteredNodes
                             | None \<Rightarrow> filteredNodes)
                         selected [],
            edges = filter (\<lambda>edge. e_from edge \<in> set selected \<and> e_to edge \<in> set selected)
                      (edges graph)\<rparr>)"

text \<open>\<open>graph.edges.find(e => e.from === a && e.to === b)\<close>.\<close>

definition findEdge :: "RouteGraph \<Rightarrow> string \<Rightarrow> string \<Rightarrow> RouteEdge option" where
  "findEdge graph a b = find (\<lambda>e. e_from e = a \<and> e_to e = b) (edges graph)"

subsection \<open>Condition factors and path metrics\<close>

fun getWeatherImpact :: "Weather \<Rightarrow> real" where
  "getWeatherImpact Rainy = 1.3"
| "getWeatherImpact Foggy = 1.4"
| "getWeatherImpact Snowy = 1.6"
| "getWeatherImpact Windy = 1.1"
| "getWeatherImpact Sunny = 1.0"

fun getTimeOfDayImpact :: "TimeOfDay \<Rightarrow> real" where
  "getTimeOfDayImpact Morning = 1.3"
| "getTimeOfDayImpact Evening = 1.4"
| "getTimeOfDayImpact Night = 0.9"
| "getTimeOfDayImpact Afternoon = 1.0"

record VehicleInfo =
  speedFactor :: real
  fuelRate :: real
  costPerKm :: real

fun getVehicleEfficiency :: "Vehicle \<Rightarrow> VehicleInfo" where
  "getVehicleEfficiency Bike = \<lparr>speedFactor = 1.2, fuelRate = 0.02, costPerKm = 2.5\<rparr>"
| "getVehicleEfficiency Car = \<lparr>speedFactor = 1.0, fuelRate = 0.08, costPerKm = 4.0\<rparr>"
| "getVehicleEfficiency Truck = \<lparr>speedFactor = 0.7, fuelRate = 0.25, costPerKm = 8.0\<rparr>"
| "getVehicleEfficiency Bus = \<lparr>speedFactor = 0.8, fuelRate = 0.20, costPerKm = 6.0\<rparr>"
| "getVehicleEfficiency Ambulance = \<lparr>speedFactor = 1.3, fuelRate = 0.10, costPerKm = 5.0\<rparr>"
| "getVehicleEfficiency Ev = \<lparr>speedFactor = 1.0, fuelRate = 0.03, costPerKm = 2.0\<rparr>"

text \<open>The six fields \<open>calculatePathMetrics\<close> returns; \<open>totalScore\<close> is added by the caller.\<close>

record PathMetrics =
  pm_distance :: real
  pm_time :: real
  pm_cost :: real
  pm_fuel :: real
  pm_trafficImpact :: real
  pm_weatherImpact :: real

text \<open>The sums of \<open>edge.distance\<close> and \<open>edge.time\<close> over the legs that have an edge.\<close>

fun legTotals :: "RouteGraph \<Rightarrow> string list \<Rightarrow> real \<times> real" where
  "legTotals graph (a # b # rest) =
     (case findEdge graph a b of
        Some edge \<Rightarrow> (e_distance edge + fst (legTotals graph (b # rest)),
                      e_time edge + snd (legTotals graph (b # rest)))
      | None \<Rightarrow> legTotals graph (b # rest))"
| "legTotals graph _ = (0, 0)"

definition calculatePathMetrics :: "string list \<Rightarrow> RouteGraph \<Rightarrow> string SimulationParams \<Rightarrow> PathMetrics" where
  "calculatePathMetrics p graph params =
     (if length p < 2
      then \<lparr>pm_distance = 0, pm_time = 0, pm_cost = 0, pm_fuel = 0,
            pm_trafficImpact = 1, pm_weatherImpact = 1\<rparr>
      else let totalDistance = fst (legTotals graph p);
               totalTime = snd (legTotals graph p);
               weatherImpact = getWeatherImpact (weather params);
               timeImpact = getTimeOfDayImpact (timeOfDay params);
               vehicleInfo = getVehicleEfficiency (vehicle params);
               adjustedTime = totalTime * weatherImpact * timeImpact / speedFactor vehicleInfo;
               baseCost = (totalDistance / 1000) * costPerKm vehicleInfo;
               fuelCost = (totalDistance / 1000) * fuelRate vehicleInfo * 100;
               driverCost = (adjustedTime / 3600) * 200;
               totalCost = baseCost + fuelCost + driverCost;
               fuelConsumption = (totalDistance / 1000) * fuelRate vehicleInfo
           in \<lparr>pm_distance = totalDistance, pm_time = adjustedTime, pm_cost = totalCost,
               pm_fuel = fuelConsumption, pm_trafficImpact = timeImpact,
               pm_weatherImpact = weatherImpact\<rparr>)"

subsection \<open>nearestNeighborTSP\<close>

text \<open>
  The \<open>for\<close> loop over the edges: the pair \<open>(nearestNode, nearestDistance)\<close>, which starts
  as \<open>('', Infinity)\<close>.
\<close>

definition nnStep :: "string fset \<Rightarrow> string \<Rightarrow> RouteEdge \<Rightarrow> string \<times> real option \<Rightarrow> string \<times> real option" where
  "nnStep visited current edge best =
     (if e_from edge = current \<and> e_to edge |\<notin>| visited \<and> ltInf (e_distance edge) (snd best)
      then (e_to edge, Some (e_distance edge)) else best)"

definition nnNearest :: "RouteGraph \<Rightarrow> string fset \<Rightarrow> string \<Rightarrow> string" where
  "nnNearest graph visited current = fst (fold (nnStep visited current) (edges graph) ('''', None))"

lemma fold_nnStep_unvisited:
  "fst (fold (nnStep visited current) es best) = fst best
     \<or> fst (fold (nnStep visited current) es best) |\<notin>| visited"
proof (induction es arbitrary: best)
  case Nil
  then show ?case by simp
next
  case (Cons e es)
  have "fst (nnStep visited current e best) = fst best
          \<or> fst (nnStep visited current e best) |\<notin>| visited"
    by (simp add: nnStep_def)
  with Cons.IH [of "nnStep visited current e best"] show ?case
    by auto
qed

lemma nnNearest_unvisited:
  "nnNearest graph visited current \<noteq> '''' \<Longrightarrow> nnNearest graph visited current |\<notin>| visited"
  using fold_nnStep_unvisited [of visited current "edges graph" "('''', None)"]
  by (simp add: nnNearest_def)

text \<open>The \<open>while (visited.size < allNodes.length)\<close> loop; it returns \<open>path\<close> and \<open>visited\<close>.\<close>

function nnLoop :: "RouteGraph \<Rightarrow> string list \<Rightarrow> string fset \<Rightarrow> string \<Rightarrow> string list \<times> string fset" where
  "nnLoop graph pth visited current =
     (if fcard visited < length (objectKeys (nodes graph))
      then (let nearestNode = nnNearest graph visited current
            in if nearestNode = '''' then (pth, visited)
               else nnLoop graph (pth @ [nearestNode]) (finsert nearestNode visited) nearestNode)
      else (pth, visited))"
  by pat_completeness auto
termination
  by (relation "measure (\<lambda>(graph, pth, visited, current).
                  length (objectKeys (nodes graph)) - fcard visited)")
     (auto simp: fcard_finsert_disjoint dest: nnNearest_unvisited)

declare nnLoop.simps [simp del]

definition nearestNeighborTSP :: "RouteGraph \<Rightarrow> string \<Rightarrow> string list" where
  "nearestNeighborTSP graph start =
     (case nnLoop graph [start] {|start|} start of
        (pth, visited) \<Rightarrow>
          if fcard visited = length (objectKeys (nodes graph)) then pth @ [start] else pth)"

subsection \<open>bruteForceTSP\<close>

function permute :: "'a list \<Rightarrow> 'a list list" where
  "permute arr =
     (if length arr \<le> 1 then [arr]
      else concat (map (\<lambda>i. map (\<lambda>perm. arr ! i # perm)
                                (permute (take i arr @ drop (Suc i) arr)))
                       [0..<length arr]))"
  by pat_completeness auto
termination
  by (relation "measure length") auto

declare permute.simps [simp del]

text \<open>
  The distance of \<open>fullPath\<close>, or \<open>None\<close> when a leg has no edge (\<open>validPath = false\<close>).
\<close>

fun tourDistance :: "RouteGraph \<Rightarrow> string list \<Rightarrow> real option" where
  "tourDistance graph (a # b # rest) =
     (case findEdge graph a b of
        None \<Rightarrow> None
      | Some edge \<Rightarrow> map_option (\<lambda>d. e_distance edge + d) (tourDistance graph (b # rest)))"
| "tourDistance graph _ = Some 0"

definition bfStep :: "RouteGraph \<Rightarrow> string \<Rightarrow> string list \<Rightarrow> string list \<times> real option \<Rightarrow> string list \<times> real option" where
  "bfStep graph start perm best =
     (let fullPath = [start] @ perm @ [start]
      in case tourDistance graph fullPath of
           None \<Rightarrow> best
         | Some totalDistance \<Rightarrow>
             if ltInf totalDistance (snd best) then (fullPath, Some totalDistance) else best)"

definition bruteForceTSP :: "RouteGraph \<Rightarrow> string \<Rightarrow> string list" where
  "bruteForceTSP graph start =
     (let allNodes = objectKeys (nodes graph);
          otherNodes = filter (\<lambda>node. node \<noteq> start) allNodes
      in if length otherNodes > 8 then nearestNeighborTSP graph start
         else let bestPath = fst (fold (bfStep graph start) (permute otherNodes) ([], None))
              in if length bestPath > 0 then bestPath else nearestNeighborTSP graph start)"

subsection \<open>dynamicProgrammingTSP\<close>

text \<open>
  \<open>nodeToIndex[x]\<close>: the position of \<open>x\<close> among the keys, \<open>undefined\<close> (\<open>None\<close>) for any
  other string.
\<close>

definition nodeToIndex :: "string list \<Rightarrow> string \<Rightarrow> nat option" where
  "nodeToIndex allNodes x = (if indexOf allNodes x < 0 then None else Some (nat (indexOf allNodes x)))"

text \<open>
  The matrix \<open>dist\<close>, filled with \<open>Infinity\<close> and then with the edges in order: \<open>None\<close> is
  \<open>Infinity\<close>.
\<close>

definition distMatrix :: "RouteGraph \<Rightarrow> string list \<Rightarrow> nat \<times> nat \<Rightarrow> real option" where
  "distMatrix graph allNodes =
     fold (\<lambda>edge dmat.
             case nodeToIndex allNodes (e_from edge) of
               None \<Rightarrow> dmat
             | Some i \<Rightarrow>
                 (case nodeToIndex allNodes (e_to edge) of
                    None \<Rightarrow> dmat
                  | Some j \<Rightarrow> dmat((i, j) \<mapsto> e_distance edge)))
          (edges graph) Map.empty"

text \<open>
  The tables \<open>dp[mask][u]\<close> and \<open>parent[mask][u]\<close>, keyed by the pair \<open>(mask, u)\<close>. A row
  \<open>dp[mask]\<close> is created only together with its first entry, so the test \<open>!dp[mask]\<close> says
  that no pair \<open>(mask, u)\<close> is in the table. Masks are below \<open>2 ^ 12\<close>.
\<close>

record DpTables =
  dpCost :: "nat \<times> nat \<Rightarrow> real option"
  dpParent :: "nat \<times> nat \<Rightarrow> nat option"

text \<open>The loop over \<open>v\<close> for a state \<open>(mask, u)\<close> that the table holds.\<close>

definition dpRelax :: "(nat \<times> nat \<Rightarrow> real option) \<Rightarrow> nat \<Rightarrow> nat \<Rightarrow> nat \<Rightarrow> nat \<Rightarrow> DpTables \<Rightarrow> DpTables" where
  "dpRelax dmat n msk u v t =
     (case dmat (u, v) of
        None \<Rightarrow> t
      | Some d \<Rightarrow>
          (case dpCost t (msk, u) of
             None \<Rightarrow> t
           | Some c \<Rightarrow>
               if bit msk v then t
               else if ltInf (c + d) (dpCost t (msk OR push_bit v 1, v))
                    then \<lparr>dpCost = (dpCost t)((msk OR push_bit v 1, v) \<mapsto> c + d),
                          dpParent = (dpParent t)((msk OR push_bit v 1, v) \<mapsto> u)\<rparr>
                    else t))"

definition dpFillMask :: "(nat \<times> nat \<Rightarrow> real option) \<Rightarrow> nat \<Rightarrow> nat \<Rightarrow> DpTables \<Rightarrow> DpTables" where
  "dpFillMask dmat n msk t0 =
     fold (\<lambda>u t. if bit msk u then fold (dpRelax dmat n msk u) [0..<n] t else t) [0..<n] t0"

definition dpFill :: "(nat \<times> nat \<Rightarrow> real option) \<Rightarrow> nat \<Rightarrow> DpTables \<Rightarrow> DpTables" where
  "dpFill dmat n t0 = fold (dpFillMask dmat n) [1..<2 ^ n] t0"

text \<open>The search for the best return to the start: \<open>(minCost, lastCity)\<close>.\<close>

definition dpLastCity ::
  "(nat \<times> nat \<Rightarrow> real option) \<Rightarrow> nat \<Rightarrow> nat \<Rightarrow> DpTables \<Rightarrow> real option \<times> nat option"
where
  "dpLastCity dmat n startIndex t =
     fold (\<lambda>i best.
             if i = startIndex then best
             else (case dpCost t (2 ^ n - 1, i) of
                     None \<Rightarrow> best
                   | Some c \<Rightarrow>
                       (case dmat (i, startIndex) of
                          None \<Rightarrow> best
                        | Some d \<Rightarrow> if ltInf (c + d) (fst best) then (Some (c + d), Some i) else best)))
          [0..<n] (None, None)"

text \<open>
  The reconstruction loop; it returns \<open>path\<close> and \<open>currentMask\<close>. Nothing in the loop itself
  bounds it, so the model is a partial function.
\<close>

partial_function (option) dpReconstruct ::
  "string list \<Rightarrow> DpTables \<Rightarrow> string list \<Rightarrow> nat \<Rightarrow> nat \<Rightarrow> (string list \<times> nat) option"
where
  "dpReconstruct allNodes t pth currentMask currentCity =
     (if currentMask > 0
      then (case dpParent t (currentMask, currentCity) of
              None \<Rightarrow> Some (pth, currentMask)
            | Some prevCity \<Rightarrow>
                dpReconstruct allNodes t (allNodes ! currentCity # pth)
                  (currentMask XOR push_bit currentCity 1) prevCity)
      else Some (pth, currentMask))"

declare dpReconstruct.simps [code]

text \<open>
  \<open>dynamicProgrammingTSP\<close>. When \<open>start\<close> is not a node, \<open>startIndex\<close> is \<open>undefined\<close>: the
  only entry of the table is \<open>dp[1][undefined]\<close>, which no loop reads, \<open>lastCity\<close> stays
  \<open>-1\<close> and the nearest-neighbour path is returned.
\<close>

definition dynamicProgrammingTSP :: "RouteGraph \<Rightarrow> string \<Rightarrow> string list option" where
  "dynamicProgrammingTSP graph start =
     (let allNodes = objectKeys (nodes graph);
          n = length allNodes
      in if n > 12 then Some (nearestNeighborTSP graph start)
         else case nodeToIndex allNodes start of
                None \<Rightarrow> Some (nearestNeighborTSP graph start)
              | Some startIndex \<Rightarrow>
                  (let dmat = distMatrix graph allNodes;
                       startMask = push_bit startIndex 1;
                       t = dpFill dmat n \<lparr>dpCost = [(startMask, startIndex) \<mapsto> 0],
                                           dpParent = Map.empty\<rparr>
                   in case snd (dpLastCity dmat n startIndex t) of
                        None \<Rightarrow> Some (nearestNeighborTSP graph start)
                      | Some lastCity \<Rightarrow>
                          map_option
                            (\<lambda>r. let p = (if snd r = startMask
                                          then [allNodes ! startIndex] @ fst r @ [allNodes ! startIndex]
                                          else fst r)
                                 in if length p > 2 then p else nearestNeighborTSP graph start)
                            (dpReconstruct allNodes t [] (2 ^ n - 1) lastCity)))"

subsection \<open>branchAndBoundTSP\<close>

record BranchNode =
  bn_path :: "string list"
  bn_cost :: real
  bn_visited :: "string fset"
  bn_bound :: real

text \<open>The cheapest edge out of a node, \<open>None\<close> (\<open>Infinity\<close>) when it has none.\<close>

definition minEdge :: "RouteGraph \<Rightarrow> string \<Rightarrow> real option" where
  "minEdge graph node =
     fold (\<lambda>edge m. if e_from edge = node \<and> ltInf (e_distance edge) m then Some (e_distance edge) else m)
          (edges graph) None"

definition calculateBound :: "RouteGraph \<Rightarrow> string list \<Rightarrow> string fset \<Rightarrow> real" where
  "calculateBound graph p visited =
     fold (\<lambda>node bound.
             if node |\<notin>| visited
             then (case minEdge graph node of None \<Rightarrow> bound | Some m \<Rightarrow> bound + m)
             else bound)
          (objectKeys (nodes graph)) 0"

record BnbState =
  queue :: "BranchNode list"
  bestSolution :: "BranchNode option"
  bestCost :: "real option"

text \<open>The children pushed for the node taken from the queue, in the order of the edges.\<close>

definition expand :: "RouteGraph \<Rightarrow> real option \<Rightarrow> BranchNode \<Rightarrow> BranchNode list" where
  "expand graph best current =
     concat (map (\<lambda>edge.
        if e_from edge = last (bn_path current) \<and> e_to edge |\<notin>| bn_visited current
        then (let newVisited = finsert (e_to edge) (bn_visited current);
                  newPath = bn_path current @ [e_to edge];
                  newCost = bn_cost current + e_distance edge;
                  newBound = calculateBound graph newPath newVisited
              in if ltInf (newCost + newBound) best
                 then [\<lparr>bn_path = newPath, bn_cost = newCost, bn_visited = newVisited,
                        bn_bound = newBound\<rparr>]
                 else [])
        else []) (edges graph))"

text \<open>
  One turn of \<open>while (queue.length > 0)\<close> for a non-empty queue: the stable sort by
  \<open>cost + bound\<close>, \<open>shift\<close>, and the three cases of the body.
\<close>

definition bnbStep :: "RouteGraph \<Rightarrow> string \<Rightarrow> BnbState \<Rightarrow> BnbState" where
  "bnbStep graph start st =
     (let sorted = sort_key (\<lambda>a. bn_cost a + bn_bound a) (queue st);
          current = hd sorted;
          rest = tl sorted
      in if ltInf (bn_cost current + bn_bound current) (bestCost st)
         then (if fcard (bn_visited current) = length (objectKeys (nodes graph))
               then (case findEdge graph (last (bn_path current)) start of
                       None \<Rightarrow> st\<lparr>queue := rest\<rparr>
                     | Some returnEdge \<Rightarrow>
                         if ltInf (bn_cost current + e_distance returnEdge) (bestCost st)
                         then \<lparr>queue = rest,
                               bestSolution = Some \<lparr>bn_path = bn_path current @ [start],
                                                    bn_cost = bn_cost current + e_distance returnEdge,
                                                    bn_visited = bn_visited current, bn_bound = 0\<rparr>,
                               bestCost = Some (bn_cost current + e_distance returnEdge)\<rparr>
                         else st\<lparr>queue := rest\<rparr>)
               else st\<lparr>queue := rest @ expand graph (bestCost st) current\<rparr>)
         else st\<lparr>queue := rest\<rparr>)"

text \<open>
  The loop has no iteration limit; the model is a partial function, \<open>None\<close> for a loop that
  does not end.
\<close>

partial_function (option) bnbLoop :: "RouteGraph \<Rightarrow> string \<Rightarrow> BnbState \<Rightarrow> BnbState option" where
  "bnbLoop graph start st =
     (if queue st = [] then Some st else bnbLoop graph start (bnbStep graph start st))"

declare bnbLoop.simps [code]

definition branchAndBoundTSP :: "RouteGraph \<Rightarrow> string \<Rightarrow> string list option" where
  "branchAndBoundTSP graph start =
     (if length (objectKeys (nodes graph)) > 10 then dynamicProgrammingTSP graph start
      else map_option
             (\<lambda>st. case bestSolution st of
                      Some sol \<Rightarrow> bn_path sol
                    | None \<Rightarrow> nearestNeighborTSP graph start)
             (bnbLoop graph start
                \<lparr>queue = [\<lparr>bn_path = [start], bn_cost = 0, bn_visited = {|start|},
                            bn_bound = calculateBound graph [start] {|start|}\<rparr>],
                 bestSolution = None, bestCost = None\<rparr>))"

subsection \<open>calculateAlgorithmScore and runSimulation\<close>

fun algorithmFactor :: "Algorithm \<Rightarrow> real" where
  "algorithmFactor BruteForce = 0.95"
| "algorithmFactor DynamicProgramming = 0.97"
| "algorithmFactor NearestNeighbor = 1.08"
| "algorithmFactor BranchAndBound = 0.98"

text \<open>
  \<open>calculateAlgorithmScore\<close>; \<open>r\<close> is the value \<open>Math.random()\<close> returns in the call.
\<close>

definition calculateAlgorithmScore :: "real \<Rightarrow> Algorithm \<Rightarrow> PathMetrics \<Rightarrow> real" where
  "calculateAlgorithmScore r alg m =
     (let distanceScore = (pm_distance m / 1000) / 50;
          timeScore = (pm_time m / 3600) / 2;
          costScore = pm_cost m / 1000;
          fuelScore = pm_fuel m / 10;
          baseScore = (distanceScore + timeScore + costScore + fuelScore) * algorithmFactor alg;
          baseScore2 = baseScore * (pm_trafficImpact m * 0.1);
          baseScore3 = baseScore2 * (pm_weatherImpact m * 0.05);
          baseScore4 = baseScore3 + (r - 0.5) * 0.1
      in max baseScore4 0.1)"

fun routeSolver :: "RouteGraph \<Rightarrow> string \<Rightarrow> Algorithm \<Rightarrow> string list option" where
  "routeSolver graph start NearestNeighbor = Some (nearestNeighborTSP graph start)"
| "routeSolver graph start BruteForce = Some (bruteForceTSP graph start)"
| "routeSolver graph start DynamicProgramming = dynamicProgrammingTSP graph start"
| "routeSolver graph start BranchAndBound = branchAndBoundTSP graph start"

text \<open>
  \<open>runSimulation\<close>. \<open>fullGraph\<close> is the graph \<open>getRouteGraph(params.mapType)\<close> returns in
  the call. The result is \<open>None\<close> when the solver does not return.
\<close>

definition runSimulation :: "RouteGraph \<Rightarrow> real \<Rightarrow> string SimulationParams \<Rightarrow> string SimulationResult option" where
  "runSimulation fullGraph r params =
     (let graph = filterGraphForSelectedCities fullGraph
                    (case selectedCities params of None \<Rightarrow> [] | Some cs \<Rightarrow> cs)
      in case selectedCities params of
           None \<Rightarrow> Some (emptyResult (algorithm params))
         | Some cs \<Rightarrow>
             if length cs < 2 then Some (emptyResult (algorithm params))
             else let start = (if startLocation params \<in> set cs then startLocation params
                               else cs ! 0)
                  in map_option
                       (\<lambda>p. let baseMetrics = calculatePathMetrics p graph params
                            in \<lparr>res_algorithm = algorithm params, path = p,
                                metrics = \<lparr>distance = pm_distance baseMetrics,
                                           time = pm_time baseMetrics,
                                           cost = pm_cost baseMetrics,
                                           fuel = pm_fuel baseMetrics,
                                           trafficImpact = pm_trafficImpact baseMetrics,
                                           weatherImpact = pm_weatherImpact baseMetrics,
                                           totalScore = calculateAlgorithmScore r (algorithm params)
                                                          baseMetrics\<rparr>\<rparr>)
                       (routeSolver graph start (algorithm params)))"


section \<open>The graph-builder module (src/utils/graphAlgorithms.ts)\<close>

subsection \<open>The graph\<close>

record GraphNode =
  gn_id :: string
  gn_label :: string
  gn_x :: real
  gn_y :: real
  population :: real
  importance :: real
  trafficLevel :: real

datatype RoadType = Highway | City | Rural

record GraphEdge =
  ge_from :: string
  ge_to :: string
  ge_weight :: real
  roadType :: RoadType
  trafficFactor :: real
  ge_weatherImpact :: real

text \<open>
  \<open>Graph\<close>. \<open>convertToGraph\<close> writes \<open>nodes[id]\<close>, \<open>nodeIndices[id]\<close> and \<open>indexToNode[index]\<close>
  in the same turn of one loop over the input nodes, so the three objects are kept as the
  one list \<open>nodeList\<close> of the nodes in input order, and read through the accessors below.
  An entry \<open>Infinity\<close> of \<open>adjacencyMatrix\<close> is \<open>None\<close>; the matrix is read only at
  indices below the number of input nodes.
\<close>

record Graph =
  nodeList :: "GraphNode list"
  g_edges :: "GraphEdge list"
  adjacencyMatrix :: "nat \<Rightarrow> nat \<Rightarrow> real option"

text \<open>\<open>Object.keys(graph.nodes)\<close>: the ids in the order of their first insertion.\<close>

definition allNodesOf :: "Graph \<Rightarrow> string list" where
  "allNodesOf g = fold (\<lambda>x ks. if x \<in> set ks then ks else ks @ [x]) (map gn_id (nodeList g)) []"

text \<open>\<open>graph.nodeIndices[x]\<close>: the last input position with id \<open>x\<close>.\<close>

definition nodeIndices :: "Graph \<Rightarrow> string \<Rightarrow> nat option" where
  "nodeIndices g x =
     (let ids = map gn_id (nodeList g)
      in if indexOf (rev ids) x < 0 then None
         else Some (length ids - 1 - nat (indexOf (rev ids) x)))"

text \<open>\<open>graph.nodes[graph.indexToNode[i]]\<close> for an input position \<open>i\<close>.\<close>

definition nodeAtIndex :: "Graph \<Rightarrow> nat \<Rightarrow> GraphNode" where
  "nodeAtIndex g i =
     (case nodeIndices g (gn_id (nodeList g ! i)) of
        Some k \<Rightarrow> nodeList g ! k
      | None \<Rightarrow> nodeList g ! i)"

record Conditions =
  c_weather :: "Weather option"
  c_timeOfDay :: "TimeOfDay option"
  c_vehicle :: "Vehicle option"


text \<open>\<open>WEATHER_MULTIPLIERS[w] || 1.0\<close>; the table has no entry for windy.\<close>

fun WEATHER_MULTIPLIERS :: "Weather \<Rightarrow> real" where
  "WEATHER_MULTIPLIERS Sunny = 1.0"
| "WEATHER_MULTIPLIERS Rainy = 1.4"
| "WEATHER_MULTIPLIERS Foggy = 1.3"
| "WEATHER_MULTIPLIERS Snowy = 1.8"
| "WEATHER_MULTIPLIERS Windy = 1.0"

fun TIME_OF_DAY_MULTIPLIERS :: "TimeOfDay \<Rightarrow> real" where
  "TIME_OF_DAY_MULTIPLIERS Morning = 1.2"
| "TIME_OF_DAY_MULTIPLIERS Afternoon = 1.0"
| "TIME_OF_DAY_MULTIPLIERS Evening = 1.3"
| "TIME_OF_DAY_MULTIPLIERS Night = 0.9"

text \<open>\<open>conditions?.weather\<close> and \<open>conditions?.timeOfDay\<close>.\<close>

definition weatherOf :: "Conditions option \<Rightarrow> Weather option" where
  "weatherOf conditions = (case conditions of None \<Rightarrow> None | Some c \<Rightarrow> c_weather c)"

definition timeOfDayOf :: "Conditions option \<Rightarrow> TimeOfDay option" where
  "timeOfDayOf conditions = (case conditions of None \<Rightarrow> None | Some c \<Rightarrow> c_timeOfDay c)"


text \<open>\<open>if (conditions?.weather) x *= ...\<close> and \<open>if (conditions?.timeOfDay) x *= ...\<close>.\<close>

definition applyWeather :: "Conditions option \<Rightarrow> real \<Rightarrow> real" where
  "applyWeather conditions x =
     (case weatherOf conditions of None \<Rightarrow> x | Some w \<Rightarrow> x * WEATHER_MULTIPLIERS w)"

definition applyTimeOfDay :: "Conditions option \<Rightarrow> real \<Rightarrow> real" where
  "applyTimeOfDay conditions x =
     (case timeOfDayOf conditions of None \<Rightarrow> x | Some t \<Rightarrow> x * TIME_OF_DAY_MULTIPLIERS t)"

definition calculateEuclideanDistance :: "GraphNode \<Rightarrow> GraphNode \<Rightarrow> real" where
  "calculateEuclideanDistance node1 node2 =
     (let dx = gn_x node1 - gn_x node2;
          dy = gn_y node1 - gn_y node2
      in sqrt (dx * dx + dy * dy) * 0.1)"

text \<open>
  The weight the solvers use between the nodes at positions \<open>i\<close> and \<open>j\<close>: the matrix entry,
  or for \<open>Infinity\<close> the Euclidean distance with the weather and time-of-day factors.
\<close>

definition weightAt :: "Graph \<Rightarrow> Conditions option \<Rightarrow> nat \<Rightarrow> nat \<Rightarrow> real" where
  "weightAt g conditions i j =
     (case adjacencyMatrix g i j of
        Some w \<Rightarrow> w
      | None \<Rightarrow> applyTimeOfDay conditions (applyWeather conditions
                  (calculateEuclideanDistance (nodeList g ! i) (nodeList g ! j))))"

subsection \<open>convertToGraph\<close>








subsection \<open>calculateTravelTime and calculateRealWorldDistance\<close>

text \<open>\<open>graph.nodes[nodeId]\<close>: the last input node with the id.\<close>

definition graphNode :: "Graph \<Rightarrow> string \<Rightarrow> GraphNode option" where
  "graphNode g x = map_option (\<lambda>i. nodeList g ! i) (nodeIndices g x)"

definition calculateTravelTime :: "real \<Rightarrow> string list \<Rightarrow> Graph \<Rightarrow> Conditions option \<Rightarrow> real" where
  "calculateTravelTime d p g conditions =
     (let baseTime = applyWeather conditions (applyTimeOfDay conditions (d * 60));
          cityDelayFactor =
            fold (\<lambda>nodeId f.
                    case graphNode g nodeId of
                      None \<Rightarrow> f
                    | Some nd \<Rightarrow> if population nd \<noteq> 0 \<and> population nd > 500000 then f + 0.1 else f)
                 p 1.0
      in baseTime * cityDelayFactor)"

text \<open>
  Numbers that may be \<open>Infinity\<close>: \<open>None\<close> is \<open>Infinity\<close>, and \<open>ltInf2 a b\<close> is \<open>a < b\<close>.
\<close>

fun ltInf2 :: "real option \<Rightarrow> real option \<Rightarrow> bool" where
  "ltInf2 (Some a) b = ltInf a b"
| "ltInf2 None b = False"



record SolverResult =
  sr_path :: "string list"
  sr_distance :: real
  sr_time :: real

subsection \<open>bruteForce\<close>



subsection \<open>nearestNeighbor\<close>

text \<open>The score of a candidate city at position \<open>ni\<close>, seen from position \<open>ci\<close>.\<close>

definition smartScore :: "Graph \<Rightarrow> Conditions option \<Rightarrow> nat \<Rightarrow> nat \<Rightarrow> real" where
  "smartScore g conditions ci ni =
     (let cityNode = nodeList g ! ni;
          score = weightAt g conditions ci ni;
          score1 = (if importance cityNode \<noteq> 0 then score * (1 - importance cityNode / 200) else score);
          score2 = (if population cityNode \<noteq> 0 \<and> population cityNode > 300000
                    then score1 * 0.9 else score1)
      in score2)"

definition gnnStep ::
  "Graph \<Rightarrow> Conditions option \<Rightarrow> string fset \<Rightarrow> nat \<Rightarrow> string \<Rightarrow> string \<times> real option \<Rightarrow> string \<times> real option"
where
  "gnnStep g conditions visited ci nodeId best =
     (if nodeId |\<notin>| visited
      then (case nodeIndices g nodeId of
              None \<Rightarrow> best
            | Some ni \<Rightarrow>
                if ltInf (smartScore g conditions ci ni) (snd best)
                then (nodeId, Some (smartScore g conditions ci ni)) else best)
      else best)"

definition gnnBest :: "Graph \<Rightarrow> Conditions option \<Rightarrow> string fset \<Rightarrow> nat \<Rightarrow> string" where
  "gnnBest g conditions visited ci =
     fst (fold (gnnStep g conditions visited ci) (allNodesOf g) ('''', None))"

lemma fold_gnnStep_unvisited:
  "fst (fold (gnnStep g conditions visited ci) ns best) = fst best
     \<or> fst (fold (gnnStep g conditions visited ci) ns best) |\<notin>| visited"
proof (induction ns arbitrary: best)
  case Nil
  then show ?case by simp
next
  case (Cons x ns)
  have "fst (gnnStep g conditions visited ci x best) = fst best
          \<or> fst (gnnStep g conditions visited ci x best) |\<notin>| visited"
    by (simp add: gnnStep_def split: option.splits)
  with Cons.IH [of "gnnStep g conditions visited ci x best"] show ?case
    by auto
qed

lemma gnnBest_unvisited:
  "gnnBest g conditions visited ci \<noteq> '''' \<Longrightarrow> gnnBest g conditions visited ci |\<notin>| visited"
  using fold_gnnStep_unvisited [of g conditions visited ci "allNodesOf g" "('''', None)"]
  by (simp add: gnnBest_def)

text \<open>
  The state of the \<open>while\<close> loop: \<open>path\<close>, \<open>visited\<close>, \<open>current\<close> and \<open>totalDistance\<close>.
\<close>

record GnnState =
  gs_path :: "string list"
  gs_visited :: "string fset"
  gs_current :: string
  gs_total :: real

function gnnLoop :: "Graph \<Rightarrow> Conditions option \<Rightarrow> GnnState \<Rightarrow> GnnState" where
  "gnnLoop g conditions st =
     (if fcard (gs_visited st) < length (allNodesOf g)
      then (case nodeIndices g (gs_current st) of
              None \<Rightarrow> st
            | Some ci \<Rightarrow>
                (let bestNode = gnnBest g conditions (gs_visited st) ci
                 in if bestNode = '''' then st
                    else gnnLoop g conditions
                           \<lparr>gs_path = gs_path st @ [bestNode],
                            gs_visited = finsert bestNode (gs_visited st),
                            gs_current = bestNode,
                            gs_total = (case nodeIndices g bestNode of
                                          None \<Rightarrow> gs_total st
                                        | Some bi \<Rightarrow> gs_total st + weightAt g conditions ci bi)\<rparr>))
      else st)"
  by pat_completeness auto
termination
  by (relation "measure (\<lambda>(g, conditions, st). length (allNodesOf g) - fcard (gs_visited st))")
     (auto simp: fcard_finsert_disjoint dest: gnnBest_unvisited)

declare gnnLoop.simps [simp del]

definition nearestNeighbor :: "Graph \<Rightarrow> string \<Rightarrow> Conditions option \<Rightarrow> SolverResult" where
  "nearestNeighbor g start conditions =
     (let st = gnnLoop g conditions
                 \<lparr>gs_path = [start], gs_visited = {|start|}, gs_current = start, gs_total = 0\<rparr>;
          closed =
            (if fcard (gs_visited st) = length (allNodesOf g)
             then (case nodeIndices g (gs_current st) of
                     None \<Rightarrow> None
                   | Some ci \<Rightarrow>
                       (case nodeIndices g start of
                          None \<Rightarrow> None
                        | Some si \<Rightarrow> Some (weightAt g conditions ci si)))
             else None);
          p = (case closed of None \<Rightarrow> gs_path st | Some returnDistance \<Rightarrow> gs_path st @ [start]);
          totalDistance = (case closed of None \<Rightarrow> gs_total st
                           | Some returnDistance \<Rightarrow> gs_total st + returnDistance)
      in \<lparr>sr_path = p, sr_distance = totalDistance,
          sr_time = calculateTravelTime totalDistance p g conditions\<rparr>)"


subsection \<open>dynamicProgramming\<close>










subsection \<open>branchAndBound\<close>

record BnBNode =
  bb_path :: "string list"
  bb_cost :: real
  bb_visited :: "string fset"
  bb_bound :: "real option"

text \<open>
  The cheapest entry of the matrix row of the node at position \<open>ni\<close>; for the bound an
  entry \<open>Infinity\<close> is replaced by the Euclidean distance times the weather factor capped
  at 1.2.
\<close>

definition boundWeight :: "Graph \<Rightarrow> Conditions option \<Rightarrow> nat \<Rightarrow> nat \<Rightarrow> real" where
  "boundWeight g conditions ni i =
     (case adjacencyMatrix g ni i of
        Some w \<Rightarrow> w
      | None \<Rightarrow>
          (case weatherOf conditions of
             None \<Rightarrow> calculateEuclideanDistance (nodeList g ! ni) (nodeAtIndex g i)
           | Some w \<Rightarrow> calculateEuclideanDistance (nodeList g ! ni) (nodeAtIndex g i)
                         * min (WEATHER_MULTIPLIERS w) 1.2))"

definition rowMin :: "Graph \<Rightarrow> Conditions option \<Rightarrow> nat \<Rightarrow> nat \<Rightarrow> real option" where
  "rowMin g conditions n ni =
     fold (\<lambda>i m. if ltInf (boundWeight g conditions ni i) m then Some (boundWeight g conditions ni i) else m)
          [0..<n] None"

definition gCalculateBound ::
  "Graph \<Rightarrow> string \<Rightarrow> Conditions option \<Rightarrow> string list \<Rightarrow> string fset \<Rightarrow> real option"
where
  "gCalculateBound g start conditions p visited =
     (if fcard visited = length (allNodesOf g)
      then (case nodeIndices g (last p) of
              None \<Rightarrow> None
            | Some lastIndex \<Rightarrow>
                (case nodeIndices g start of
                   None \<Rightarrow> None
                 | Some startIndex \<Rightarrow> Some (weightAt g conditions lastIndex startIndex)))
      else Some (fold (\<lambda>nodeId bound.
                         case nodeIndices g nodeId of
                           None \<Rightarrow> bound
                         | Some ni \<Rightarrow>
                             (case rowMin g conditions (length (allNodesOf g)) ni of
                                None \<Rightarrow> bound
                              | Some m \<Rightarrow> bound + m))
                      (filter (\<lambda>node. node |\<notin>| visited) (allNodesOf g)) 0))"

text \<open>\<open>cost + bound\<close>, which is \<open>Infinity\<close> when the bound is.\<close>

definition bbF :: "BnBNode \<Rightarrow> real option" where
  "bbF a = map_option (\<lambda>b. bb_cost a + b) (bb_bound a)"

text \<open>
  The sort key of \<open>queue.sort((a, b) => (a.cost + a.bound) - (b.cost + b.bound))\<close>: finite
  values in their order, then the infinite ones, which compare as equal.
\<close>

definition bbKey :: "BnBNode \<Rightarrow> bool \<times> real" where
  "bbKey a = (case bbF a of None \<Rightarrow> (True, 0) | Some x \<Rightarrow> (False, x))"

record GbbState =
  gq :: "BnBNode list"
  gBestSolution :: "BnBNode option"
  gBestCost :: "real option"

definition gExpand ::
  "Graph \<Rightarrow> string \<Rightarrow> Conditions option \<Rightarrow> real option \<Rightarrow> BnBNode \<Rightarrow> nat \<Rightarrow> BnBNode list"
where
  "gExpand g start conditions best current currentIndex =
     concat (map (\<lambda>nextNode.
        if nextNode |\<notin>| bb_visited current
        then (case nodeIndices g nextNode of
                None \<Rightarrow> []
              | Some nextIndex \<Rightarrow>
                  (let newVisited = finsert nextNode (bb_visited current);
                       newPath = bb_path current @ [nextNode];
                       newCost = bb_cost current + weightAt g conditions currentIndex nextIndex;
                       newBound = gCalculateBound g start conditions newPath newVisited
                   in if ltInf2 (map_option (\<lambda>b. newCost + b) newBound) best
                      then [\<lparr>bb_path = newPath, bb_cost = newCost, bb_visited = newVisited,
                             bb_bound = newBound\<rparr>]
                      else []))
        else []) (allNodesOf g))"

definition gbbStep :: "Graph \<Rightarrow> string \<Rightarrow> Conditions option \<Rightarrow> GbbState \<Rightarrow> GbbState" where
  "gbbStep g start conditions st =
     (let sorted = sort_key bbKey (gq st);
          current = hd sorted;
          rest = tl sorted
      in if ltInf2 (bbF current) (gBestCost st)
         then (if fcard (bb_visited current) = length (allNodesOf g)
               then (case nodeIndices g (last (bb_path current)) of
                       None \<Rightarrow> st\<lparr>gq := rest\<rparr>
                     | Some lastIndex \<Rightarrow>
                         (case nodeIndices g start of
                            None \<Rightarrow> st\<lparr>gq := rest\<rparr>
                          | Some startIndex \<Rightarrow>
                              (let totalCost = bb_cost current + weightAt g conditions lastIndex startIndex
                               in if ltInf totalCost (gBestCost st)
                                  then \<lparr>gq = rest,
                                        gBestSolution = Some \<lparr>bb_path = bb_path current @ [start],
                                                              bb_cost = totalCost,
                                                              bb_visited = bb_visited current,
                                                              bb_bound = Some 0\<rparr>,
                                        gBestCost = Some totalCost\<rparr>
                                  else st\<lparr>gq := rest\<rparr>)))
               else (case nodeIndices g (last (bb_path current)) of
                       None \<Rightarrow> st\<lparr>gq := rest\<rparr>
                     | Some currentIndex \<Rightarrow>
                         st\<lparr>gq := rest @ gExpand g start conditions (gBestCost st) current currentIndex\<rparr>))
         else st\<lparr>gq := rest\<rparr>)"

text \<open>
  The loop \<open>while (queue.length > 0 && iterations < maxIterations)\<close>; the first argument
  is the number of iterations that are left.
\<close>

fun gbbLoop :: "nat \<Rightarrow> Graph \<Rightarrow> string \<Rightarrow> Conditions option \<Rightarrow> GbbState \<Rightarrow> GbbState" where
  "gbbLoop 0 g start conditions st = st"
| "gbbLoop (Suc k) g start conditions st =
     (if gq st = [] then st else gbbLoop k g start conditions (gbbStep g start conditions st))"

definition maxIterations :: nat where
  "maxIterations = 50000"

definition branchAndBoundG :: "Graph \<Rightarrow> string \<Rightarrow> Conditions option \<Rightarrow> SolverResult" where
  "branchAndBoundG g start conditions =
     (if length (allNodesOf g) > 10 then nearestNeighbor g start conditions
      else case gBestSolution
                  (gbbLoop maxIterations g start conditions
                     \<lparr>gq = [\<lparr>bb_path = [start], bb_cost = 0, bb_visited = {|start|},
                             bb_bound = gCalculateBound g start conditions [start] {|start|}\<rparr>],
                      gBestSolution = None, gBestCost = None\<rparr>) of
             Some sol \<Rightarrow>
               \<lparr>sr_path = bb_path sol, sr_distance = bb_cost sol,
                sr_time = calculateTravelTime (bb_cost sol) (bb_path sol) g conditions\<rparr>
           | None \<Rightarrow> \<lparr>sr_path = [], sr_distance = 0, sr_time = 0\<rparr>)"

subsection \<open>runGraphSimulation\<close>





section \<open>Instances\<close>

text \<open>
  Ten locations on the equator, where the haversine distance of two points is
  proportional to the difference of their longitudes: 111195 metres for each degree.
\<close>

definition equatorHav :: "Location \<Rightarrow> Location \<Rightarrow> real" where
  "equatorHav l1 l2 = \<bar>lng l1 - lng l2\<bar> * 111195"

definition onEquator :: "string \<Rightarrow> real \<Rightarrow> Location" where
  "onEquator i x = \<lparr>loc_id = i, loc_name = i, lat = 0, lng = x\<rparr>"

definition tenIds :: "string list" where
  "tenIds = [''s'', ''c1'', ''c2'', ''c3'', ''c4'', ''c5'', ''c6'', ''c7'', ''c8'', ''c9'']"

text \<open>The start one degree east of \<open>c9\<close>, the other cities further east in order.\<close>

definition lineLocations :: "Location list" where
  "lineLocations = map2 onEquator tenIds [1, 3, 4, 5, 6, 7, 8, 9, 10, 0]"


definition tenCityParams :: "Algorithm \<Rightarrow> city SimulationParams" where
  "tenCityParams a =
     \<lparr>algorithm = a, mapType = Karnataka, weather = Sunny, timeOfDay = Afternoon,
      startLocation = Some ''s'', vehicle = Car, selectedCities = Some (map Some tenIds)\<rparr>"

text \<open>Outcomes of the random calls: both random sorts leave the order as it is.\<close>

definition someDraws :: "real \<Rightarrow> real \<Rightarrow> BasicRandom" where
  "someDraws t w = \<lparr>shuffleA = (\<lambda>cs. cs), shuffleB = (\<lambda>cs. cs), trafficDraw = t, weatherDraw = w\<rparr>"


text \<open>A route graph on two cities, 1000 metres and 60 seconds apart.\<close>

definition twoNodeGraph :: RouteGraph where
  "twoNodeGraph =
     getRouteGraph (\<lambda>i j. 1000) (\<lambda>i j. 60) (\<lambda>i j. 1)
       [\<lparr>loc_id = ''k1'', loc_name = ''Bengaluru'', lat = 13, lng = 78\<rparr>,
        \<lparr>loc_id = ''k2'', loc_name = ''Mysuru'', lat = 12, lng = 77\<rparr>]"

definition routeParams :: "Algorithm \<Rightarrow> string \<Rightarrow> string list option \<Rightarrow> string SimulationParams" where
  "routeParams a start sel =
     \<lparr>algorithm = a, mapType = Karnataka, weather = Sunny, timeOfDay = Afternoon,
      startLocation = start, vehicle = Car, selectedCities = sel\<rparr>"










section \<open>Properties\<close>

subsection \<open>buildTSPPath\<close>










subsection \<open>Loops as folds\<close>

lemma fold_invariant:
  assumes "P s" and "\<And>x s. x \<in> set xs \<Longrightarrow> P s \<Longrightarrow> P (f x s)"
  shows "P (fold f xs s)"
  using assms by (induction xs arbitrary: s) auto

lemma fold_fixed:
  assumes "\<And>x. x \<in> set xs \<Longrightarrow> f x s = s"
  shows "fold f xs s = s"
  using assms by (induction xs) auto

subsection \<open>runHeldKarpDP never reaches the full mask\<close>

lemma indexOf_range:
  "x \<in> set xs \<Longrightarrow> 0 \<le> indexOf xs x \<and> indexOf xs x < int (length xs)"
  by (induction xs) (auto simp: Let_def)

lemma indexOf_absent: "x \<notin> set xs \<Longrightarrow> indexOf xs x = - 1"
  by (induction xs) (auto simp: Let_def)

text \<open>
  The keys of the table never hold the bit of the start city: the initial entries are the
  singleton masks of the other cities, and an entry for \<open>(mask, u)\<close> is only written
  when an entry for \<open>mask\<close> without \<open>u\<close> exists.
\<close>

definition hkNoStart :: "nat \<Rightarrow> hkTable \<Rightarrow> bool" where
  "hkNoStart s dp \<longleftrightarrow> (\<forall>m u. bit m s \<longrightarrow> dp (m, u) = None)"

lemma hkInit_noStart: "hkNoStart s (hkInit hav locations cities (int s))"
  unfolding hkInit_def
proof (rule fold_invariant [where P = "hkNoStart s"])
  show "hkNoStart s Map.empty"
    by (simp add: hkNoStart_def)
next
  fix i dp
  assume "hkNoStart s dp"
  then show "hkNoStart s
     (if int i \<noteq> int s
      then dp((push_bit i 1, int i) \<mapsto>
               (calculateDistance hav (nthU cities (int s)) (nthU cities (int i)) locations, int s))
      else dp)"
    by (auto simp: hkNoStart_def bit_exp_iff)
qed

lemma hkBestParent_none:
  assumes "\<And>v. dp (msk XOR push_bit u 1, int v) = None"
  shows "hkBestParent hav locations cities startIdx dp msk u = (None, - 1)"
  unfolding hkBestParent_def
  by (rule fold_fixed) (use assms in simp)

lemma hkFillMask_noStart:
  assumes "hkNoStart s dp"
  shows "hkNoStart s (hkFillMask hav locations cities (int s) msk dp)"
  unfolding hkFillMask_def
proof (rule fold_invariant [where P = "hkNoStart s", OF assms])
  fix u dp'
  assume inv: "hkNoStart s dp'"
  show "hkNoStart s
     (if bit msk u \<and> int u \<noteq> int s
      then (case dp' (msk, int u) of
              Some e \<Rightarrow> dp'
            | None \<Rightarrow>
                (case hkBestParent hav locations cities (int s) dp' msk u of
                   (Some minCost, bestParent) \<Rightarrow>
                     if bestParent \<noteq> - 1 then dp'((msk, int u) \<mapsto> (minCost, bestParent)) else dp'
                 | (None, bestParent) \<Rightarrow> dp'))
      else dp')"
  proof (cases "bit msk s \<and> u \<noteq> s")
    case False
    with inv show ?thesis
      by (auto simp: hkNoStart_def split: option.splits prod.splits)
  next
    case True
    then have "bit (msk XOR push_bit u 1) s"
      by (auto simp: bit_xor_iff bit_exp_iff)
    with inv have "\<And>v. dp' (msk XOR push_bit u 1, int v) = None"
      by (simp add: hkNoStart_def)
    then have "hkBestParent hav locations cities (int s) dp' msk u = (None, - 1)"
      by (rule hkBestParent_none)
    with inv show ?thesis
      by (simp split: option.splits)
  qed
qed

lemma hkFill_noStart:
  assumes "hkNoStart s dp"
  shows "hkNoStart s (hkFill hav locations cities (int s) dp)"
  unfolding hkFill_def
  by (rule fold_invariant [where P = "hkNoStart s", OF assms]) (rule hkFillMask_noStart)

lemma hkLastCity_none:
  assumes "\<And>i. dp (2 ^ length cities - 1, int i) = None"
  shows "hkLastCity hav locations cities startIdx dp = (None, - 1)"
  unfolding hkLastCity_def
  by (rule fold_fixed) (use assms in simp)

lemma runHeldKarpDP_start_selected:
  assumes sel: "selectedCities params = Some cs"
    and start: "startLocation params \<in> set cs"
    and len: "length cs \<le> 10"
  shows "runHeldKarpDP hav params locations
           = Some [startLocation params, None, startLocation params]"
proof -
  let ?i = "indexOf cs (startLocation params)"
  from indexOf_range [OF start] obtain s where s: "?i = int s" "s < length cs"
    by (metis nat_less_iff nonneg_int_cases of_nat_less_iff)
  let ?dp = "hkFill hav locations cs (int s) (hkInit hav locations cs (int s))"
  have "(2::nat) ^ length cs - 1 = mask (length cs)"
    by (simp only: mask_eq_exp_minus_1)
  then have full: "bit ((2::nat) ^ length cs - 1) s"
    using s(2) by (simp only: bit_mask_iff) simp
  have "hkNoStart s ?dp"
    by (intro hkFill_noStart hkInit_noStart)
  with full have none: "\<And>u. ?dp (2 ^ length cs - 1, u) = None"
    by (simp add: hkNoStart_def)
  then have last: "hkLastCity hav locations cs (int s) ?dp = (None, - 1)"
    by (intro hkLastCity_none) simp
  have "(2::nat) ^ 1 \<le> 2 ^ length cs"
    using s(2) by (intro power_increasing) simp_all
  then have pos: "(2::nat) ^ length cs - 1 > 0"
    by simp
  have "hkReconstruct ?dp cs (int s) [startLocation params] (2 ^ length cs - 1) (- 1)
          = Some [startLocation params, None]"
    using pos none by (subst hkReconstruct.simps) (simp add: nthU_def)
  then show ?thesis
    using len by (simp add: runHeldKarpDP_def sel s(1) last Let_def)
qed

text \<open>
  C1 (the claim fails on the code). Every solver is to return a closed tour through every
  node. The Held-Karp solver of the basic dispatcher does not: whenever the start is one of
  up to ten selected cities, its table has no entry for the full mask, no last city is
  found, and the reconstruction reads \<open>cities[-1]\<close>. The path returned is the start, then
  \<open>undefined\<close>, then the start, whatever the cities and distances are.
\<close>

theorem runBasicTSPSimulation_heldKarp_path:
  assumes "algorithm params = DynamicProgramming"
    and "selectedCities params = Some cs"
    and "startLocation params \<in> set cs"
    and "2 \<le> length cs" and "length cs \<le> 10"
  shows "map_option path (runBasicTSPSimulation hav rnd mapLocations params)
           = Some [startLocation params, None, startLocation params]"
  using assms runHeldKarpDP_start_selected [of params cs hav "mapLocations (mapType params)"]
  by (simp add: runBasicTSPSimulation_def Let_def)

theorem runBasicTSPSimulation_heldKarp_path_witness:
  "map_option path
     (runBasicTSPSimulation (\<lambda>l1 l2. 0)
        \<lparr>shuffleA = id, shuffleB = id, trafficDraw = 0, weatherDraw = 0\<rparr>
        (\<lambda>m. [\<lparr>loc_id = ''k1'', loc_name = ''Bengaluru'', lat = 12.9716, lng = 77.5946\<rparr>,
              \<lparr>loc_id = ''k2'', loc_name = ''Mysuru'', lat = 12.2958, lng = 76.6394\<rparr>])
        \<lparr>algorithm = DynamicProgramming, mapType = Karnataka, weather = Sunny,
         timeOfDay = Afternoon, startLocation = Some ''k1'', vehicle = Car,
         selectedCities = Some [Some ''k1'', Some ''k2'']\<rparr>)
     = Some [Some ''k1'', None, Some ''k1'']"
  using runBasicTSPSimulation_heldKarp_path
    [of "\<lparr>algorithm = DynamicProgramming, mapType = Karnataka, weather = Sunny,
          timeOfDay = Afternoon, startLocation = Some ''k1'', vehicle = Car,
          selectedCities = Some [Some ''k1'', Some ''k2'']\<rparr>"
        "[Some ''k1'', Some ''k2'']"]
  by simp

text \<open>
  C2 (the claim fails on the code). On a request for two cities \<open>k1\<close> and \<open>k2\<close> of the
  location table, with start \<open>k1\<close>, both solvers of the basic dispatcher are within their
  cutoffs. Brute force reports the distance of the round trip, \<open>hav k1 k2 + hav k2 k1\<close>;
  the Held-Karp solver returns the path of C1, whose two legs touch \<open>undefined\<close> and are
  charged 999999 each, so it reports 1999998 for every distance function \<open>hav\<close> and all
  coordinates.
\<close>

theorem heldKarp_distance_differs_from_bruteForce:
  "map_option (\<lambda>r. distance (metrics r))
     (runBasicTSPSimulation hav rnd
        (\<lambda>m. [\<lparr>loc_id = ''k1'', loc_name = n1, lat = a1, lng = b1\<rparr>,
              \<lparr>loc_id = ''k2'', loc_name = n2, lat = a2, lng = b2\<rparr>])
        \<lparr>algorithm = DynamicProgramming, mapType = Karnataka, weather = Sunny,
         timeOfDay = Afternoon, startLocation = Some ''k1'', vehicle = Car,
         selectedCities = Some [Some ''k1'', Some ''k2'']\<rparr>)
     = Some 1999998
   \<and> map_option (\<lambda>r. distance (metrics r))
     (runBasicTSPSimulation hav rnd
        (\<lambda>m. [\<lparr>loc_id = ''k1'', loc_name = n1, lat = a1, lng = b1\<rparr>,
              \<lparr>loc_id = ''k2'', loc_name = n2, lat = a2, lng = b2\<rparr>])
        \<lparr>algorithm = BruteForce, mapType = Karnataka, weather = Sunny,
         timeOfDay = Afternoon, startLocation = Some ''k1'', vehicle = Car,
         selectedCities = Some [Some ''k1'', Some ''k2'']\<rparr>)
     = Some (hav \<lparr>loc_id = ''k1'', loc_name = n1, lat = a1, lng = b1\<rparr>
                 \<lparr>loc_id = ''k2'', loc_name = n2, lat = a2, lng = b2\<rparr>
             + hav \<lparr>loc_id = ''k2'', loc_name = n2, lat = a2, lng = b2\<rparr>
                   \<lparr>loc_id = ''k1'', loc_name = n1, lat = a1, lng = b1\<rparr>)"
proof -
  let ?k1 = "\<lparr>loc_id = ''k1'', loc_name = n1, lat = a1, lng = b1\<rparr>"
  let ?k2 = "\<lparr>loc_id = ''k2'', loc_name = n2, lat = a2, lng = b2\<rparr>"
  let ?p = "\<lambda>a. \<lparr>algorithm = a, mapType = Karnataka, weather = Sunny,
         timeOfDay = Afternoon, startLocation = Some ''k1'', vehicle = Car,
         selectedCities = Some [Some ''k1'', Some ''k2'']\<rparr>"
  have dp: "runHeldKarpDP hav (?p DynamicProgramming) [?k1, ?k2] = Some [Some ''k1'', None, Some ''k1'']"
    using runHeldKarpDP_start_selected [of "?p DynamicProgramming" "[Some ''k1'', Some ''k2'']"]
    by simp
  have perms: "generateAllPermutations [Some ''k2''] = [[Some ''k2'']]"
    by (simp add: generateAllPermutations.simps)
  have opt: "apply2OptImprovement hav [Some ''k1'', Some ''k2'', Some ''k1''] locations
               = [Some ''k1'', Some ''k2'', Some ''k1'']" for locations
    by (subst apply2OptImprovement.simps) (simp add: twoOptSweep_def twoOptPairs_def)
  have bf: "runOptimalBruteForce hav rnd (?p BruteForce) [?k1, ?k2]
              = [Some ''k1'', Some ''k2'', Some ''k1'']"
    by (simp add: runOptimalBruteForce_def perms keepShorter_def opt)
  show ?thesis
    by (simp add: runBasicTSPSimulation_def Let_def dp bf basicMetrics_def calculateDistance_def)
qed

subsection \<open>The brute-force cutoff\<close>






subsection \<open>The branch-and-bound ceiling\<close>




lemma fold_orOptStep_le:
  "calculatePathDistance hav (fold (orOptStep hav locations) pairs p) locations
     \<le> calculatePathDistance hav p locations"
proof (induction pairs arbitrary: p)
  case Nil
  then show ?case by simp
next
  case (Cons ij pairs)
  have "calculatePathDistance hav (orOptStep hav locations ij p) locations
          \<le> calculatePathDistance hav p locations"
    by (simp add: orOptStep_def Let_def)
  with Cons.IH [of "orOptStep hav locations ij p"] show ?case
    by simp
qed



subsection \<open>The dispatchers on degenerate requests\<close>

text \<open>
  C7, as stated, fails: \<open>runSimulation\<close> does not reject a start outside the selection. On
  the two-city graph with start \<open>k9\<close> it solves from the first selected city.
\<close>

theorem runSimulation_start_outside_selection:
  "startLocation (routeParams NearestNeighbor ''k9'' (Some [''k1'', ''k2'']))
     \<notin> set [''k1'', ''k2'']
   \<and> map_option path
        (runSimulation twoNodeGraph (1 / 2) (routeParams NearestNeighbor ''k9'' (Some [''k1'', ''k2''])))
      = Some [''k1'', ''k2'', ''k1'']"
proof
  show "startLocation (routeParams NearestNeighbor ''k9'' (Some [''k1'', ''k2'']))
          \<notin> set [''k1'', ''k2'']"
    by (simp add: routeParams_def)
  show "map_option path
        (runSimulation twoNodeGraph (1 / 2) (routeParams NearestNeighbor ''k9'' (Some [''k1'', ''k2''])))
      = Some [''k1'', ''k2'', ''k1'']"
    by code_simp
qed

lemma calculatePathMetrics_startLocation:
  "calculatePathMetrics p graph (params\<lparr>startLocation := x\<rparr>) = calculatePathMetrics p graph params"
  by (simp add: calculatePathMetrics_def)

text \<open>
  C7, amended. For every request with at least two selected cities whose start is not one
  of them, \<open>runSimulation\<close> raises no error: it takes the first selected city as the start
  and returns what it returns for the request with that start.
\<close>

theorem runSimulation_substitutes_start:
  assumes "selectedCities params = Some cs"
    and "2 \<le> length cs"
    and "startLocation params \<notin> set cs"
  shows "runSimulation fullGraph r params
           = runSimulation fullGraph r (params\<lparr>startLocation := cs ! 0\<rparr>)"
proof -
  have "cs ! 0 \<in> set cs"
    using assms(2) by (cases cs) simp_all
  then show ?thesis
    using assms
    by (simp add: runSimulation_def Let_def calculatePathMetrics_startLocation)
qed

theorem runSimulation_substitutes_start_witness:
  "runSimulation twoNodeGraph (1 / 2) (routeParams NearestNeighbor ''k9'' (Some [''k1'', ''k2'']))
     = runSimulation twoNodeGraph (1 / 2)
         ((routeParams NearestNeighbor ''k9'' (Some [''k1'', ''k2'']))
            \<lparr>startLocation := [''k1'', ''k2''] ! 0\<rparr>)"
  using runSimulation_substitutes_start
    [of "routeParams NearestNeighbor ''k9'' (Some [''k1'', ''k2''])" "[''k1'', ''k2'']"
        twoNodeGraph "1 / 2"]
  by (simp add: routeParams_def)




subsection \<open>Determinism\<close>

text \<open>
  C4, as stated, fails: the code draws random numbers. On the same request (two cities,
  nearest neighbour) the basic dispatcher returns different results for different
  outcomes of its calls of \<open>Math.random\<close>.
\<close>

theorem runBasicTSPSimulation_depends_on_draws:
  "runBasicTSPSimulation equatorHav (someDraws 0 0) (\<lambda>m. lineLocations)
     ((tenCityParams NearestNeighbor)\<lparr>selectedCities := Some [Some ''s'', Some ''c1'']\<rparr>)
   \<noteq> runBasicTSPSimulation equatorHav (someDraws (1 / 2) 0) (\<lambda>m. lineLocations)
     ((tenCityParams NearestNeighbor)\<lparr>selectedCities := Some [Some ''s'', Some ''c1'']\<rparr>)"
  by (simp add: runBasicTSPSimulation_def tenCityParams_def basicMetrics_def someDraws_def Let_def)

text \<open>
  C4, amended. Two calls with identical inputs agree in everything that does not hold a
  random draw. Of the basic dispatcher, the tour, distance, time, cost, fuel and total
  score do not depend on the draws, unless brute force is asked for more than eight cities
  besides the start (where two starting orders are random). Of the route-graph
  dispatcher, on the same generated graph, the tour and every metric but the total score
  do not depend on the draw.
\<close>

theorem solve_deterministic_apart_from_draws:
  "((algorithm bparams \<noteq> BruteForce
       \<or> (\<exists>cs. selectedCities bparams = Some cs
                \<and> length (filter (\<lambda>c. c \<noteq> startLocation bparams) cs) \<le> 8))
      \<longrightarrow> map_option (\<lambda>res. (path res, distance (metrics res), time (metrics res),
                               cost (metrics res), fuel (metrics res), totalScore (metrics res)))
             (runBasicTSPSimulation hav rnd mapLocations bparams)
          = map_option (\<lambda>res. (path res, distance (metrics res), time (metrics res),
                               cost (metrics res), fuel (metrics res), totalScore (metrics res)))
             (runBasicTSPSimulation hav rnd' mapLocations bparams))
   \<and> map_option (\<lambda>res. (path res, distance (metrics res), time (metrics res), cost (metrics res),
                         fuel (metrics res), trafficImpact (metrics res),
                         weatherImpact (metrics res)))
        (runSimulation fullGraph r params)
      = map_option (\<lambda>res. (path res, distance (metrics res), time (metrics res), cost (metrics res),
                         fuel (metrics res), trafficImpact (metrics res),
                         weatherImpact (metrics res)))
        (runSimulation fullGraph r' params)"
proof -
  have bf: "runOptimalBruteForce hav rnd bparams locations
              = runOptimalBruteForce hav rnd' bparams locations"
    if "selectedCities bparams = Some cs"
      and "length (filter (\<lambda>c. c \<noteq> startLocation bparams) cs) \<le> 8" for cs locations
    using that by (simp add: runOptimalBruteForce_def Let_def)
  have solver: "basicSolver hav rnd bparams locations (algorithm bparams)
                  = basicSolver hav rnd' bparams locations (algorithm bparams)"
    if "algorithm bparams \<noteq> BruteForce
         \<or> (\<exists>cs. selectedCities bparams = Some cs
                \<and> length (filter (\<lambda>c. c \<noteq> startLocation bparams) cs) \<le> 8)" for locations
    using that bf by (cases "algorithm bparams") auto
  have basic: "map_option (\<lambda>res. (path res, distance (metrics res), time (metrics res),
                               cost (metrics res), fuel (metrics res), totalScore (metrics res)))
             (runBasicTSPSimulation hav rnd mapLocations bparams)
          = map_option (\<lambda>res. (path res, distance (metrics res), time (metrics res),
                               cost (metrics res), fuel (metrics res), totalScore (metrics res)))
             (runBasicTSPSimulation hav rnd' mapLocations bparams)"
    if "algorithm bparams \<noteq> BruteForce
         \<or> (\<exists>cs. selectedCities bparams = Some cs
                \<and> length (filter (\<lambda>c. c \<noteq> startLocation bparams) cs) \<le> 8)"
    using solver [OF that]
    by (simp add: runBasicTSPSimulation_def Let_def emptyResult_def basicMetrics_def
          option.map_comp comp_def split: option.splits)
  have route: "map_option (\<lambda>res. (path res, distance (metrics res), time (metrics res), cost (metrics res),
                         fuel (metrics res), trafficImpact (metrics res),
                         weatherImpact (metrics res)))
        (runSimulation fullGraph r params)
      = map_option (\<lambda>res. (path res, distance (metrics res), time (metrics res), cost (metrics res),
                         fuel (metrics res), trafficImpact (metrics res),
                         weatherImpact (metrics res)))
        (runSimulation fullGraph r' params)"
    by (simp add: runSimulation_def Let_def emptyResult_def option.map_comp comp_def
          split: option.splits)
  from basic route show ?thesis
    by blast
qed

theorem solve_deterministic_apart_from_draws_witness:
  "map_option (\<lambda>res. (path res, distance (metrics res), time (metrics res),
                        cost (metrics res), fuel (metrics res), totalScore (metrics res)))
     (runBasicTSPSimulation equatorHav (someDraws 0 0) (\<lambda>m. lineLocations)
        (tenCityParams NearestNeighbor))
   = map_option (\<lambda>res. (path res, distance (metrics res), time (metrics res),
                        cost (metrics res), fuel (metrics res), totalScore (metrics res)))
     (runBasicTSPSimulation equatorHav (someDraws (1 / 2) (1 / 4)) (\<lambda>m. lineLocations)
        (tenCityParams NearestNeighbor))
   \<and> map_option (\<lambda>res. (path res, distance (metrics res), time (metrics res), cost (metrics res),
                         fuel (metrics res), trafficImpact (metrics res),
                         weatherImpact (metrics res)))
        (runSimulation twoNodeGraph 0 (routeParams NearestNeighbor ''k1'' (Some [''k1'', ''k2''])))
      = map_option (\<lambda>res. (path res, distance (metrics res), time (metrics res), cost (metrics res),
                         fuel (metrics res), trafficImpact (metrics res),
                         weatherImpact (metrics res)))
        (runSimulation twoNodeGraph (9 / 10) (routeParams NearestNeighbor ''k1'' (Some [''k1'', ''k2''])))"
  using solve_deterministic_apart_from_draws
    [of "tenCityParams NearestNeighbor" equatorHav "someDraws 0 0" "\<lambda>m. lineLocations"
        "someDraws (1 / 2) (1 / 4)" twoNodeGraph 0
        "routeParams NearestNeighbor ''k1'' (Some [''k1'', ''k2''])" "9 / 10"]
  by (simp add: tenCityParams_def)

subsection \<open>The nearest-neighbour walk\<close>

subsection \<open>The nearest-neighbour walks\<close>






lemma allNodesOf_fold:
  "distinct acc \<Longrightarrow>
     distinct (fold (\<lambda>x ks. if x \<in> set ks then ks else ks @ [x]) xs acc)
     \<and> set (fold (\<lambda>x ks. if x \<in> set ks then ks else ks @ [x]) xs acc) = set acc \<union> set xs"
  by (induction xs arbitrary: acc) auto

lemma distinct_allNodesOf: "distinct (allNodesOf g)"
  using allNodesOf_fold [of "[]" "map gn_id (nodeList g)"] by (simp add: allNodesOf_def)

lemma set_allNodesOf: "set (allNodesOf g) = gn_id ` set (nodeList g)"
  using allNodesOf_fold [of "[]" "map gn_id (nodeList g)"] by (simp add: allNodesOf_def)

lemma nodeIndices_defined: "nodeIndices g x \<noteq> None \<longleftrightarrow> x \<in> set (allNodesOf g)"
proof (cases "x \<in> gn_id ` set (nodeList g)")
  case True
  then have "x \<in> set (rev (map gn_id (nodeList g)))"
    by simp
  from indexOf_range [OF this] True show ?thesis
    by (simp add: nodeIndices_def set_allNodesOf Let_def)
next
  case False
  then have "x \<notin> set (rev (map gn_id (nodeList g)))"
    by simp
  from indexOf_absent [OF this] False show ?thesis
    by (simp add: nodeIndices_def set_allNodesOf Let_def)
qed

lemma gnnBest_node:
  "gnnBest g conditions visited ci \<noteq> '''' \<Longrightarrow> gnnBest g conditions visited ci \<in> set (allNodesOf g)"
proof -
  have "fst (fold (gnnStep g conditions visited ci) (allNodesOf g) ('''', None))
          \<in> insert (fst ('''', None :: real option)) (set (allNodesOf g))"
    by (rule fold_select_in) (simp add: gnnStep_def split: option.splits)
  then show "gnnBest g conditions visited ci \<noteq> '''' \<Longrightarrow> gnnBest g conditions visited ci \<in> set (allNodesOf g)"
    by (simp add: gnnBest_def)
qed

text \<open>The invariant of the \<open>while\<close> loop of \<open>nearestNeighbor\<close>.\<close>

definition gnnInv :: "Graph \<Rightarrow> string \<Rightarrow> GnnState \<Rightarrow> bool" where
  "gnnInv g start st \<longleftrightarrow>
     fset (gs_visited st) = set (gs_path st) \<and> distinct (gs_path st)
     \<and> (\<exists>rest. gs_path st = start # rest) \<and> gs_current st = last (gs_path st)
     \<and> set (gs_path st) \<subseteq> set (allNodesOf g)
     \<and> fcard (gs_visited st) \<le> length (allNodesOf g)"

lemma gnnLoop_invariant:
  assumes "gnnInv g start st"
  shows "gnnInv g start (gnnLoop g conditions st)"
  using assms
proof (induction g conditions st rule: gnnLoop.induct)
  case (1 g conditions st)
  let ?n = "length (allNodesOf g)"
  show ?case
  proof (cases "fcard (gs_visited st) < ?n")
    case False
    then have "gnnLoop g conditions st = st"
      by (subst gnnLoop.simps) simp
    with "1.prems" show ?thesis by simp
  next
    case lt: True
    show ?thesis
    proof (cases "nodeIndices g (gs_current st)")
      case None
      then have "gnnLoop g conditions st = st"
        by (subst gnnLoop.simps) simp
      with "1.prems" show ?thesis by simp
    next
      case (Some ci)
      let ?x = "gnnBest g conditions (gs_visited st) ci"
      show ?thesis
      proof (cases "?x = ''''")
        case True
        then have "gnnLoop g conditions st = st"
          using Some by (subst gnnLoop.simps) (simp add: Let_def)
        with "1.prems" show ?thesis by simp
      next
        case False
        let ?st' = "\<lparr>gs_path = gs_path st @ [?x],
                      gs_visited = finsert ?x (gs_visited st),
                      gs_current = ?x,
                      gs_total = (case nodeIndices g ?x of
                                    None \<Rightarrow> gs_total st
                                  | Some bi \<Rightarrow> gs_total st + weightAt g conditions ci bi)\<rparr>"
        have step: "gnnLoop g conditions st = gnnLoop g conditions ?st'"
          using lt Some False by (subst gnnLoop.simps) (simp add: Let_def)
        have new: "?x |\<notin>| gs_visited st"
          using False by (rule gnnBest_unvisited)
        have node: "?x \<in> set (allNodesOf g)"
          using False by (rule gnnBest_node)
        have "fcard (finsert ?x (gs_visited st)) \<le> ?n"
          using lt new by (simp add: fcard_finsert_disjoint)
        with "1.prems" new node have "gnnInv g start ?st'"
          by (auto simp: gnnInv_def)
        with "1.IH" [OF lt Some refl False] step show ?thesis
          by simp
      qed
    qed
  qed
qed





subsection \<open>The union-find of calculateMSTBound returns\<close>

text \<open>
  The parent links that are not fixed points, as a relation from a key to its parent.
  \<open>find\<close> returns as long as this relation has no infinite chain.
\<close>

definition ufRel :: "(city \<Rightarrow> city option) \<Rightarrow> (city \<times> city) set" where
  "ufRel parent = {(mapGet parent x, x) | x. mapGet parent x \<noteq> x}"

lemma mapGet_upd: "mapGet (p(x \<mapsto> r)) y = (if y = x then r else mapGet p y)"
  by (simp add: mapGet_def)

lemma ufRel_upd: "ufRel (p(x \<mapsto> r)) \<subseteq> insert (r, x) (ufRel p)"
  by (auto simp: ufRel_def mapGet_upd)

lemma ufFind_returns:
  assumes "wf (ufRel parent)"
  shows "\<exists>p' r. ufFind parent x = Some (p', r) \<and> mapGet p' r = r
           \<and> ufRel p' \<subseteq> (ufRel parent)\<^sup>+ \<and> (r, x) \<in> (ufRel parent)\<^sup>*"
  using assms
proof (induction x rule: wf_induct_rule)
  case (less x)
  show ?case
  proof (cases "mapGet parent x = x")
    case True
    then show ?thesis
      by (subst ufFind.simps) auto
  next
    case False
    then have edge: "(mapGet parent x, x) \<in> ufRel parent"
      by (auto simp: ufRel_def)
    from less.IH [OF edge] obtain p1 r where
      rec: "ufFind parent (mapGet parent x) = Some (p1, r)" and root: "mapGet p1 r = r"
      and sub: "ufRel p1 \<subseteq> (ufRel parent)\<^sup>+" and reach: "(r, mapGet parent x) \<in> (ufRel parent)\<^sup>*"
      by blast
    from reach edge have rx: "(r, x) \<in> (ufRel parent)\<^sup>+"
      by (rule rtrancl_into_trancl1)
    have res: "ufFind parent x = Some (p1(x \<mapsto> r), r)"
      using False rec by (subst ufFind.simps) (simp add: mapGet_upd)
    have "mapGet (p1(x \<mapsto> r)) r = r"
      using root by (simp add: mapGet_upd)
    moreover have "ufRel (p1(x \<mapsto> r)) \<subseteq> (ufRel parent)\<^sup>+"
      using ufRel_upd [of p1 x r] sub rx by auto
    moreover have "(r, x) \<in> (ufRel parent)\<^sup>*"
      using rx by (rule trancl_into_rtrancl)
    ultimately show ?thesis
      using res by simp
  qed
qed

lemma ufFind_wf:
  assumes "wf (ufRel parent)"
  obtains p' r where "ufFind parent x = Some (p', r)" and "mapGet p' r = r" and "wf (ufRel p')"
proof -
  from ufFind_returns [OF assms, of x] obtain p' r where
    "ufFind parent x = Some (p', r)" "mapGet p' r = r" "ufRel p' \<subseteq> (ufRel parent)\<^sup>+"
    by blast
  moreover have "wf (ufRel p')"
    using wf_trancl [OF assms] \<open>ufRel p' \<subseteq> (ufRel parent)\<^sup>+\<close> by (rule wf_subset)
  ultimately show ?thesis
    using that by blast
qed

text \<open>Linking a key to a root of the table keeps the links free of infinite chains.\<close>

lemma ufRel_link_wf:
  assumes wf: "wf (ufRel p)" and root: "mapGet p r2 = r2" and neq: "r1 \<noteq> r2"
  shows "wf (ufRel (p(r1 \<mapsto> r2)))"
proof -
  have "(r1, r2) \<notin> (ufRel p)\<^sup>*"
  proof
    assume "(r1, r2) \<in> (ufRel p)\<^sup>*"
    then show False
      using neq root by (cases rule: rtranclE) (auto simp: ufRel_def)
  qed
  with wf have "wf (insert (r2, r1) (ufRel p))"
    by (simp add: wf_insert)
  then show ?thesis
    using ufRel_upd [of p r1 r2] by (rule wf_subset)
qed

lemma kruskalStep_returns:
  assumes "wf (ufRel (uf st))"
  shows "\<exists>st'. kruskalStep npoints e (Some st) = Some st' \<and> wf (ufRel (uf st'))"
proof (cases "stopped st")
  case True
  then show ?thesis
    using assms by (simp add: kruskalStep_def)
next
  case False
  from ufFind_wf [OF assms, of "edge_from e"] obtain p1 r1 where
    f1: "ufFind (uf st) (edge_from e) = Some (p1, r1)" and wf1: "wf (ufRel p1)"
    by blast
  from ufFind_wf [OF wf1, of "edge_to e"] obtain p2 r2 where
    f2: "ufFind p1 (edge_to e) = Some (p2, r2)" and root2: "mapGet p2 r2 = r2" and wf2: "wf (ufRel p2)"
    by blast
  show ?thesis
  proof (cases "r1 = r2")
    case True
    then show ?thesis
      using False f1 f2 wf2 by (simp add: kruskalStep_def)
  next
    case neq: False
    have "wf (ufRel (p2(r1 \<mapsto> r2)))"
      using wf2 root2 neq by (rule ufRel_link_wf)
    then show ?thesis
      using False f1 f2 neq by (simp add: kruskalStep_def)
  qed
qed

lemma fold_kruskalStep_returns:
  "wf (ufRel (uf st)) \<Longrightarrow> \<exists>st'. fold (kruskalStep npoints) es (Some st) = Some st'"
proof (induction es arbitrary: st)
  case Nil
  then show ?case by simp
next
  case (Cons e es)
  from kruskalStep_returns [OF Cons.prems, of npoints e] obtain st1 where
    "kruskalStep npoints e (Some st) = Some st1" "wf (ufRel (uf st1))"
    by blast
  with Cons.IH [of st1] show ?case
    by simp
qed

lemma mapGet_identity_table:
  "mapGet (fold (\<lambda>p parent. parent(p \<mapsto> p)) ps Map.empty) x = (if x \<in> set ps then x else None)"
proof -
  have "mapGet (fold (\<lambda>p parent. parent(p \<mapsto> p)) ps m) x
          = (if x \<in> set ps then x else mapGet m x)" for m
    by (induction ps arbitrary: m) (auto simp: mapGet_upd)
  then show ?thesis
    by (simp add: mapGet_def)
qed

lemma identity_table_wf: "wf (ufRel (fold (\<lambda>p parent. parent(p \<mapsto> p)) ps Map.empty))"
proof -
  have "ufRel (fold (\<lambda>p parent. parent(p \<mapsto> p)) ps Map.empty)
          \<subseteq> measure (\<lambda>x. case x of None \<Rightarrow> 0 | Some y \<Rightarrow> Suc 0)"
    by (auto simp: ufRel_def mapGet_identity_table split: option.splits if_splits)
  then show ?thesis
    by (rule wf_subset [OF wf_measure])
qed

lemma calculateMSTBound_returns:
  "\<exists>b. calculateMSTBound hav current remaining end locations = Some b"
proof (cases "length remaining = 0")
  case True
  then show ?thesis
    by (simp add: calculateMSTBound_def)
next
  case False
  let ?allPoints = "[current] @ remaining @ [end]"
  let ?st = "\<lparr>uf = fold (\<lambda>p parent. parent(p \<mapsto> p)) ?allPoints Map.empty,
              mstWeight = 0, edgesAdded = 0, stopped = False\<rparr>"
  have "wf (ufRel (uf ?st))"
    using identity_table_wf [of ?allPoints] by simp
  from fold_kruskalStep_returns [OF this] obtain st' where
    "fold (kruskalStep (length ?allPoints))
       (sort_key edge_weight (mstEdges hav locations ?allPoints)) (Some ?st) = Some st'"
    by blast
  then show ?thesis
    using False by (simp add: calculateMSTBound_def Let_def)
qed

subsection \<open>runBranchAndBoundTSP is never longer than the nearest-neighbour tour\<close>

lemma calculatePathDistance_snoc:
  "p \<noteq> [] \<Longrightarrow>
     calculatePathDistance hav (p @ [c]) locations
       = calculatePathDistance hav p locations + calculateDistance hav (last p) c locations"
  by (induction hav p locations rule: calculatePathDistance.induct) simp_all

text \<open>
  A loop over the candidates that threads the incumbent: when every turn keeps the
  property \<open>Q\<close> of the incumbent and never raises its cost, so does the loop.
\<close>

lemma fold_incumbent:
  assumes step: "\<And>c acc. c \<in> set cs \<Longrightarrow> Q acc \<Longrightarrow>
                   \<exists>acc'. f c acc = Some acc' \<and> Q acc' \<and> snd acc' \<le> (snd acc :: real)"
    and "Q best"
  shows "\<exists>best'. fold (\<lambda>c a. Option.bind a (f c)) cs (Some best) = Some best'
           \<and> Q best' \<and> snd best' \<le> snd best"
  using assms
proof (induction cs arbitrary: best)
  case Nil
  then show ?case by simp
next
  case (Cons c cs)
  from Cons.prems(1) [of c best] Cons.prems(2) obtain b1 where
    b1: "f c best = Some b1" "Q b1" "snd b1 \<le> snd best"
    by auto
  have "\<exists>best'. fold (\<lambda>c a. Option.bind a (f c)) cs (Some b1) = Some best'
          \<and> Q best' \<and> snd best' \<le> snd b1"
    using Cons.prems(1) b1(2) by (intro Cons.IH) auto
  with b1 show ?case
    by auto
qed

lemma branchAndBound_improves:
  assumes "currentPath \<noteq> []"
    and "currentCost = calculatePathDistance hav currentPath locations"
    and "snd best = calculatePathDistance hav (fst best) locations"
  shows "\<exists>best'. branchAndBound hav locations start currentPath remaining currentCost best = Some best'
           \<and> snd best' = calculatePathDistance hav (fst best') locations
           \<and> snd best' \<le> snd best"
  using assms
proof (induction hav locations start currentPath remaining currentCost best
        rule: branchAndBound.induct)
  case (1 hav locations start currentPath remaining currentCost best)
  show ?case
  proof (cases "remaining = []")
    case True
    then show ?thesis
      using "1.prems"
      by (subst branchAndBound.simps) (auto simp: Let_def calculatePathDistance_snoc prod_eq_iff)
  next
    case False
    obtain b where b: "calculateMSTBound hav (last currentPath) remaining start locations = Some b"
      using calculateMSTBound_returns by blast
    show ?thesis
    proof (cases "currentCost + b \<ge> snd best")
      case True
      then show ?thesis
        using False b "1.prems" by (subst branchAndBound.simps) simp
    next
      case open_node: False
      let ?sorted = "sort_key (\<lambda>x. calculateDistance hav (last currentPath) x locations) remaining"
      let ?f = "\<lambda>c. branchAndBound hav locations start (currentPath @ [c])
                       (filter (\<lambda>x. x \<noteq> c) ?sorted)
                       (currentCost + calculateDistance hav (last currentPath) c locations)"
      have step: "\<exists>acc'. ?f c acc = Some acc'
                    \<and> snd acc' = calculatePathDistance hav (fst acc') locations
                    \<and> snd acc' \<le> snd acc"
        if "c \<in> set ?sorted" and "snd acc = calculatePathDistance hav (fst acc) locations" for c acc
        using "1.IH" [OF False b open_node that(1) refl, of acc] that(2) "1.prems"(1,2)
        by (simp add: calculatePathDistance_snoc)
      have "\<exists>best'. fold (\<lambda>c a. Option.bind a (?f c)) ?sorted (Some best) = Some best'
              \<and> snd best' = calculatePathDistance hav (fst best') locations
              \<and> snd best' \<le> snd best"
        using step "1.prems"(3)
        by (rule fold_incumbent [where Q = "\<lambda>acc. snd acc = calculatePathDistance hav (fst acc) locations"])
      then show ?thesis
        using False b open_node by (subst branchAndBound.simps) simp
    qed
  qed
qed

lemma runBranchAndBoundTSP_le_greedy:
  "\<exists>p. runBranchAndBoundTSP hav params locations = Some p
      \<and> calculatePathDistance hav p locations
          \<le> calculatePathDistance hav (runGreedyNearestNeighbor hav params locations) locations"
proof (cases "length (the (selectedCities params)) > 9")
  case True
  have "calculatePathDistance hav (runHeuristicBranchBound hav params locations) locations
          \<le> calculatePathDistance hav (runGreedyNearestNeighbor hav params locations) locations"
    unfolding runHeuristicBranchBound_def Let_def by (rule fold_orOptStep_le)
  with True show ?thesis
    by (simp add: runBranchAndBoundTSP_def)
next
  case False
  let ?nn = "runGreedyNearestNeighbor hav params locations"
  from branchAndBound_improves [of "[startLocation params]" 0 hav locations
         "(?nn, calculatePathDistance hav ?nn locations)" "startLocation params"
         "filter (\<lambda>id. id \<noteq> startLocation params) (the (selectedCities params))"]
  obtain best' where
    "branchAndBound hav locations (startLocation params) [startLocation params]
       (filter (\<lambda>id. id \<noteq> startLocation params) (the (selectedCities params))) 0
       (?nn, calculatePathDistance hav ?nn locations) = Some best'"
    "snd best' = calculatePathDistance hav (fst best') locations"
    "snd best' \<le> calculatePathDistance hav ?nn locations"
    by auto
  with False show ?thesis
    by (simp add: runBranchAndBoundTSP_def Let_def)
qed

subsection \<open>The weight of a path in the graph-builder module\<close>

text \<open>
  The weight of the leg between two node ids, and the sum over the legs of a path: the
  sum that \<open>nearestNeighbor\<close> accumulates in \<open>totalDistance\<close> and \<open>branchAndBound\<close> in the
  \<open>cost\<close> of a queue entry.
\<close>

definition legWeight :: "Graph \<Rightarrow> Conditions option \<Rightarrow> string \<Rightarrow> string \<Rightarrow> real" where
  "legWeight g conditions a b =
     (case nodeIndices g a of
        None \<Rightarrow> 0
      | Some i \<Rightarrow> (case nodeIndices g b of None \<Rightarrow> 0 | Some j \<Rightarrow> weightAt g conditions i j))"

fun pathWeight :: "Graph \<Rightarrow> Conditions option \<Rightarrow> string list \<Rightarrow> real" where
  "pathWeight g conditions (a # b # rest) =
     legWeight g conditions a b + pathWeight g conditions (b # rest)"
| "pathWeight g conditions _ = 0"

text \<open>
  The graphs the solvers of the module are meant for: node ids are distinct and not
  empty, no weight of the matrix is negative, and the diagonal is zero.
\<close>

definition validGraph :: "Graph \<Rightarrow> bool" where
  "validGraph g \<longleftrightarrow>
     distinct (map gn_id (nodeList g)) \<and> '''' \<notin> gn_id ` set (nodeList g)
     \<and> (\<forall>i j w. adjacencyMatrix g i j = Some w \<longrightarrow> 0 \<le> w)
     \<and> (\<forall>i < length (nodeList g). adjacencyMatrix g i i = Some 0)"

lemma pathWeight_snoc:
  "p \<noteq> [] \<Longrightarrow>
     pathWeight g conditions (p @ [x]) = pathWeight g conditions p + legWeight g conditions (last p) x"
  by (induction g conditions p rule: pathWeight.induct) simp_all

lemma calculateEuclideanDistance_nonneg: "0 \<le> calculateEuclideanDistance a b"
  by (simp add: calculateEuclideanDistance_def Let_def)

lemma WEATHER_MULTIPLIERS_pos: "0 < WEATHER_MULTIPLIERS w"
  by (cases w) simp_all

lemma TIME_OF_DAY_MULTIPLIERS_pos: "0 < TIME_OF_DAY_MULTIPLIERS t"
  by (cases t) simp_all

lemma applyWeather_nonneg: "0 \<le> x \<Longrightarrow> 0 \<le> applyWeather conditions x"
  using WEATHER_MULTIPLIERS_pos
  by (auto simp: applyWeather_def less_imp_le split: option.splits)

lemma applyTimeOfDay_nonneg: "0 \<le> x \<Longrightarrow> 0 \<le> applyTimeOfDay conditions x"
  using TIME_OF_DAY_MULTIPLIERS_pos
  by (auto simp: applyTimeOfDay_def less_imp_le split: option.splits)

lemma weightAt_nonneg: "validGraph g \<Longrightarrow> 0 \<le> weightAt g conditions i j"
  by (auto simp: weightAt_def validGraph_def split: option.splits
           intro!: applyTimeOfDay_nonneg applyWeather_nonneg calculateEuclideanDistance_nonneg)

lemma legWeight_nonneg: "validGraph g \<Longrightarrow> 0 \<le> legWeight g conditions a b"
  by (simp add: legWeight_def weightAt_nonneg split: option.splits)

lemma pathWeight_nonneg: "validGraph g \<Longrightarrow> 0 \<le> pathWeight g conditions p"
  by (induction g conditions p rule: pathWeight.induct) (simp_all add: legWeight_nonneg)

lemma pathWeight_append_ge:
  "validGraph g \<Longrightarrow> pathWeight g conditions p \<le> pathWeight g conditions (p @ q)"
proof (induction q rule: rev_induct)
  case Nil
  then show ?case by simp
next
  case (snoc x q)
  show ?case
  proof (cases "p @ q = []")
    case True
    then show ?thesis
      using snoc.prems by (simp add: pathWeight_nonneg)
  next
    case False
    have "pathWeight g conditions (p @ q @ [x])
            = pathWeight g conditions (p @ q) + legWeight g conditions (last (p @ q)) x"
      using pathWeight_snoc [OF False, of g conditions x] by simp
    with snoc legWeight_nonneg [of g conditions "last (p @ q)" x] show ?thesis
      by simp
  qed
qed

lemma pathWeight_take_le:
  "validGraph g \<Longrightarrow> pathWeight g conditions (take k p) \<le> pathWeight g conditions p"
  using pathWeight_append_ge [of g conditions "take k p" "drop k p"] by simp

subsection \<open>nearestNeighbor visits every node of a valid graph\<close>

lemma fold_gnnStep_found:
  "snd best \<noteq> None \<or> (\<exists>x \<in> set ns. x |\<notin>| visited \<and> nodeIndices g x \<noteq> None) \<Longrightarrow>
     snd (fold (gnnStep g conditions visited ci) ns best) \<noteq> None"
proof (induction ns arbitrary: best)
  case Nil
  then show ?case by simp
next
  case (Cons x ns)
  have "snd (gnnStep g conditions visited ci x best) \<noteq> None
          \<or> (\<exists>y \<in> set ns. y |\<notin>| visited \<and> nodeIndices g y \<noteq> None)"
    using Cons.prems by (cases "snd best") (auto simp: gnnStep_def split: option.splits)
  then show ?case
    using Cons.IH [of "gnnStep g conditions visited ci x best"] by simp
qed

lemma fold_gnnStep_choice:
  "fold (gnnStep g conditions visited ci) ns best = best
     \<or> fst (fold (gnnStep g conditions visited ci) ns best) \<in> set ns"
proof (induction ns arbitrary: best)
  case Nil
  then show ?case by simp
next
  case (Cons x ns)
  have "gnnStep g conditions visited ci x best = best
          \<or> fst (gnnStep g conditions visited ci x best) = x"
    by (simp add: gnnStep_def split: option.splits)
  with Cons.IH [of "gnnStep g conditions visited ci x best"] show ?case
    by auto
qed

lemma gnnBest_found:
  assumes "x \<in> set (allNodesOf g)" and "x |\<notin>| visited"
  shows "gnnBest g conditions visited ci \<in> set (allNodesOf g)"
proof -
  let ?r = "fold (gnnStep g conditions visited ci) (allNodesOf g) ('''', None)"
  have "nodeIndices g x \<noteq> None"
    using assms(1) nodeIndices_defined [of g x] by blast
  with assms have "snd ?r \<noteq> None"
    by (intro fold_gnnStep_found) auto
  then have "?r \<noteq> ('''', None)"
    by auto
  with fold_gnnStep_choice [of g conditions visited ci "allNodesOf g" "('''', None)"]
  show ?thesis
    by (simp add: gnnBest_def)
qed

text \<open>
  The loop of \<open>nearestNeighbor\<close> on a valid graph: \<open>totalDistance\<close> is the weight of the
  path, and the loop ends with every node visited.
\<close>

lemma gnnLoop_total:
  assumes "validGraph g" and "gnnInv g start st"
    and "gs_total st = pathWeight g conditions (gs_path st)"
  shows "gs_total (gnnLoop g conditions st) = pathWeight g conditions (gs_path (gnnLoop g conditions st))
         \<and> fcard (gs_visited (gnnLoop g conditions st)) = length (allNodesOf g)"
  using assms
proof (induction g conditions st rule: gnnLoop.induct)
  case (1 g conditions st)
  let ?n = "length (allNodesOf g)"
  from "1.prems"(2) obtain rest where v: "fset (gs_visited st) = set (gs_path st)"
    and p: "gs_path st = start # rest" and cur: "gs_current st = last (gs_path st)"
    and subk: "set (gs_path st) \<subseteq> set (allNodesOf g)" and le: "fcard (gs_visited st) \<le> ?n"
    by (auto simp: gnnInv_def)
  show ?case
  proof (cases "fcard (gs_visited st) < ?n")
    case False
    then have "gnnLoop g conditions st = st"
      by (subst gnnLoop.simps) simp
    with "1.prems" False le show ?thesis by simp
  next
    case lt: True
    have "last (gs_path st) \<in> set (allNodesOf g)"
      using subk p by (metis last_in_set list.distinct(1) subsetD)
    then obtain ci where ci: "nodeIndices g (gs_current st) = Some ci"
      using nodeIndices_defined [of g "last (gs_path st)"] cur by auto
    let ?x = "gnnBest g conditions (gs_visited st) ci"
    have "card (fset (gs_visited st)) < card (set (allNodesOf g))"
      using lt by (simp add: fcard.rep_eq distinct_allNodesOf distinct_card)
    then have "\<not> set (allNodesOf g) \<subseteq> fset (gs_visited st)"
      by (metis card_mono finite_fset not_le)
    then obtain y where y: "y \<in> set (allNodesOf g)" "y |\<notin>| gs_visited st"
      by auto
    then have node: "?x \<in> set (allNodesOf g)"
      by (rule gnnBest_found)
    have "'''' \<notin> set (allNodesOf g)"
      using "1.prems"(1) by (simp add: validGraph_def set_allNodesOf)
    with node have ne: "?x \<noteq> ''''"
      by auto
    obtain bi where bi: "nodeIndices g ?x = Some bi"
      using nodeIndices_defined [of g ?x] node by auto
    let ?st' = "\<lparr>gs_path = gs_path st @ [?x],
                  gs_visited = finsert ?x (gs_visited st),
                  gs_current = ?x,
                  gs_total = (case nodeIndices g ?x of
                                None \<Rightarrow> gs_total st
                              | Some bi \<Rightarrow> gs_total st + weightAt g conditions ci bi)\<rparr>"
    have step: "gnnLoop g conditions st = gnnLoop g conditions ?st'"
      using lt ci ne by (subst gnnLoop.simps) (simp add: Let_def)
    have new: "?x |\<notin>| gs_visited st"
      using ne by (rule gnnBest_unvisited)
    have "fcard (finsert ?x (gs_visited st)) \<le> ?n"
      using lt new by (simp add: fcard_finsert_disjoint)
    with "1.prems"(2) new node have inv': "gnnInv g start ?st'"
      by (auto simp: gnnInv_def)
    have "legWeight g conditions (last (gs_path st)) ?x = weightAt g conditions ci bi"
      using ci bi cur by (simp add: legWeight_def)
    moreover have "pathWeight g conditions (gs_path st @ [?x])
                     = pathWeight g conditions (gs_path st) + legWeight g conditions (last (gs_path st)) ?x"
      by (rule pathWeight_snoc) (simp add: p)
    ultimately have total': "gs_total ?st' = pathWeight g conditions (gs_path ?st')"
      using "1.prems"(3) bi by simp
    from "1.IH" [OF lt ci refl ne "1.prems"(1) inv' total'] step show ?thesis
      by simp
  qed
qed

text \<open>The result of \<open>nearestNeighbor\<close> on a valid graph, in terms of the order of visit.\<close>

lemma nearestNeighbor_tour:
  assumes valid: "validGraph g" and start: "start \<in> set (allNodesOf g)"
  obtains t where "hd t = start" and "t \<noteq> []" and "distinct t" and "set t = set (allNodesOf g)"
    and "sr_distance (nearestNeighbor g start conditions) = pathWeight g conditions (t @ [start])"
proof -
  let ?keys = "allNodesOf g"
  let ?init = "\<lparr>gs_path = [start], gs_visited = {|start|}, gs_current = start, gs_total = 0\<rparr>"
  let ?st = "gnnLoop g conditions ?init"
  let ?p = "gs_path ?st"
  have n1: "1 \<le> length ?keys"
    using start by (cases ?keys) auto
  have "fcard {|start|} = 1"
    by (simp add: fcard.rep_eq)
  with n1 start have init: "gnnInv g start ?init"
    by (simp add: gnnInv_def)
  then have inv: "gnnInv g start ?st"
    by (rule gnnLoop_invariant)
  have tot: "gs_total ?st = pathWeight g conditions ?p"
    and full: "fcard (gs_visited ?st) = length ?keys"
    using gnnLoop_total [OF valid init, of conditions] by simp_all
  from inv obtain rest where v: "fset (gs_visited ?st) = set ?p" and dist: "distinct ?p"
    and p: "?p = start # rest" and cur: "gs_current ?st = last ?p"
    and subk: "set ?p \<subseteq> set ?keys"
    by (auto simp: gnnInv_def)
  have "card (set ?p) = card (set ?keys)"
    using full v by (simp add: fcard.rep_eq distinct_allNodesOf distinct_card)
  with subk have all: "set ?p = set ?keys"
    by (intro card_subset_eq) auto
  have "last ?p \<in> set ?keys"
    using subk p by (metis last_in_set list.distinct(1) subsetD)
  then obtain ci where ci: "nodeIndices g (gs_current ?st) = Some ci"
    using nodeIndices_defined [of g "last ?p"] cur by auto
  obtain si where si: "nodeIndices g start = Some si"
    using nodeIndices_defined [of g start] start by auto
  have "legWeight g conditions (last ?p) start = weightAt g conditions ci si"
    using ci si cur by (simp add: legWeight_def)
  moreover have "pathWeight g conditions (?p @ [start])
                   = pathWeight g conditions ?p + legWeight g conditions (last ?p) start"
    by (rule pathWeight_snoc) (simp add: p)
  ultimately have "sr_distance (nearestNeighbor g start conditions)
                     = pathWeight g conditions (?p @ [start])"
    using tot by (simp add: nearestNeighbor_def Let_def full ci si)
  with p dist all that [of ?p] show ?thesis
    by simp
qed

subsection \<open>branchAndBound of the graph-builder module against a given tour\<close>

lemma hd_sort_key_le:
  assumes "x \<in> set xs"
  shows "f (hd (sort_key f xs)) \<le> f x"
proof (cases "sort_key f xs")
  case Nil
  then have "set (sort_key f xs) = {}" by simp
  with assms show ?thesis by simp
next
  case (Cons y ys)
  have "sorted (map f (sort_key f xs))"
    by (rule sorted_sort_key)
  then have "\<forall>z \<in> set ys. f y \<le> f z"
    by (simp add: Cons)
  moreover have "x \<in> set (y # ys)"
    using assms Cons by (metis set_sort)
  ultimately show ?thesis
    by (auto simp: Cons)
qed

lemma sort_key_hd_tl:
  assumes "xs \<noteq> []"
  shows "set xs = insert (hd (sort_key f xs)) (set (tl (sort_key f xs)))"
proof (cases "sort_key f xs")
  case Nil
  then have "set (sort_key f xs) = {}" by simp
  with assms show ?thesis by simp
next
  case (Cons y ys)
  have "set xs = set (sort_key f xs)" by simp
  then show ?thesis
    by (simp add: Cons)
qed

lemma fold_min_init:
  "\<exists>m. fold (\<lambda>i m. if ltInf (h i) m then Some (h i) else m) xs (Some a) = Some m \<and> m \<le> a"
proof (induction xs arbitrary: a)
  case Nil
  then show ?case by simp
next
  case (Cons x xs)
  show ?case
  proof (cases "h x < a")
    case True
    with Cons.IH [of "h x"] show ?thesis by auto
  next
    case False
    with Cons.IH [of a] show ?thesis by auto
  qed
qed

lemma fold_min_le:
  "x \<in> set xs \<Longrightarrow>
     \<exists>m. fold (\<lambda>i m. if ltInf (h i) m then Some (h i) else m) xs m0 = Some m \<and> m \<le> h x"
proof (induction xs arbitrary: m0)
  case Nil
  then show ?case by simp
next
  case (Cons y ys)
  show ?case
  proof (cases "x = y")
    case True
    have "\<exists>b. (if ltInf (h y) m0 then Some (h y) else m0) = Some b \<and> b \<le> h y"
      by (cases m0) auto
    then obtain b where b: "(if ltInf (h y) m0 then Some (h y) else m0) = Some b" "b \<le> h x"
      using True by auto
    from fold_min_init [of h ys b] b show ?thesis
      by auto
  next
    case False
    with Cons.prems have "x \<in> set ys" by simp
    from Cons.IH [OF this] show ?thesis
      by simp
  qed
qed

lemma nodeIndices_lt: "nodeIndices g x = Some i \<Longrightarrow> i < length (nodeList g)"
proof -
  assume a: "nodeIndices g x = Some i"
  then have "\<not> indexOf (rev (map gn_id (nodeList g))) x < 0"
    by (auto simp: nodeIndices_def Let_def split: if_splits)
  then have "x \<in> set (rev (map gn_id (nodeList g)))"
    using indexOf_absent [of x "rev (map gn_id (nodeList g))"] by fastforce
  then have "nodeList g \<noteq> []"
    by auto
  with a show ?thesis
    by (auto simp: nodeIndices_def Let_def split: if_splits)
qed

lemma allNodesOf_distinct_ids:
  assumes "distinct (map gn_id (nodeList g))"
  shows "allNodesOf g = map gn_id (nodeList g)"
proof -
  have "distinct (acc @ xs) \<Longrightarrow> fold (\<lambda>x ks. if x \<in> set ks then ks else ks @ [x]) xs acc = acc @ xs"
    for acc xs :: "string list"
    by (induction xs arbitrary: acc) auto
  from this [of "[]" "map gn_id (nodeList g)"] assms show ?thesis
    by (simp add: allNodesOf_def)
qed

lemma rowMin_nonpos:
  assumes valid: "validGraph g" and idx: "nodeIndices g x = Some ni"
  shows "\<exists>m. rowMin g conditions (length (allNodesOf g)) ni = Some m \<and> m \<le> 0"
proof -
  have len: "length (allNodesOf g) = length (nodeList g)"
    using valid by (simp add: validGraph_def allNodesOf_distinct_ids)
  have lt: "ni < length (nodeList g)"
    using idx by (rule nodeIndices_lt)
  then have "boundWeight g conditions ni ni = 0"
    using valid by (simp add: validGraph_def boundWeight_def)
  moreover have "ni \<in> set [0..<length (allNodesOf g)]"
    using lt len by simp
  ultimately show ?thesis
    using fold_min_le [of ni "[0..<length (allNodesOf g)]" "boundWeight g conditions ni" None]
    by (simp add: rowMin_def)
qed

lemma gCalculateBound_open:
  assumes valid: "validGraph g" and "fcard visited \<noteq> length (allNodesOf g)"
  shows "\<exists>b. gCalculateBound g start conditions p visited = Some b \<and> b \<le> 0"
proof -
  let ?step = "\<lambda>nodeId bound.
                 case nodeIndices g nodeId of
                   None \<Rightarrow> bound
                 | Some ni \<Rightarrow>
                     (case rowMin g conditions (length (allNodesOf g)) ni of
                        None \<Rightarrow> bound
                      | Some m \<Rightarrow> bound + m)"
  have "fold ?step xs b \<le> b" for xs and b :: real
  proof (induction xs arbitrary: b)
    case Nil
    then show ?case by simp
  next
    case (Cons x xs)
    have "?step x b \<le> b"
    proof (cases "nodeIndices g x")
      case None
      then show ?thesis by simp
    next
      case (Some ni)
      from rowMin_nonpos [OF valid Some, of conditions] Some show ?thesis
        by auto
    qed
    with Cons.IH [of "?step x b"] show ?case
      by simp
  qed
  from this [of "filter (\<lambda>node. node |\<notin>| visited) (allNodesOf g)" 0] assms(2) show ?thesis
    by (simp add: gCalculateBound_def)
qed

text \<open>
  The queue entry that \<open>branchAndBound\<close> builds for the first \<open>k\<close> nodes of a visiting
  order \<open>t\<close>.
\<close>

definition prefixNode :: "Graph \<Rightarrow> string \<Rightarrow> Conditions option \<Rightarrow> string list \<Rightarrow> nat \<Rightarrow> BnBNode" where
  "prefixNode g start conditions t k =
     \<lparr>bb_path = take k t, bb_cost = pathWeight g conditions (take k t),
      bb_visited = fset_of_list (take k t),
      bb_bound = gCalculateBound g start conditions (take k t) (fset_of_list (take k t))\<rparr>"

text \<open>
  The invariant of the search with respect to a visiting order \<open>t\<close> of all nodes: every
  queue entry carries the bound of its path, and either no tour has been found and
  a prefix of \<open>t\<close> is in the queue, or the incumbent is not longer than the tour of \<open>t\<close>.
\<close>

definition gbbInv :: "Graph \<Rightarrow> string \<Rightarrow> Conditions option \<Rightarrow> string list \<Rightarrow> GbbState \<Rightarrow> bool" where
  "gbbInv g start conditions t st \<longleftrightarrow>
     (\<forall>s \<in> set (gq st). bb_bound s = gCalculateBound g start conditions (bb_path s) (bb_visited s))
     \<and> (case gBestCost st of
          None \<Rightarrow> gBestSolution st = None
                   \<and> (\<exists>k. 1 \<le> k \<and> k \<le> length t \<and> prefixNode g start conditions t k \<in> set (gq st))
        | Some best \<Rightarrow> best \<le> pathWeight g conditions (t @ [start])
                        \<and> (\<exists>sol. gBestSolution st = Some sol \<and> bb_cost sol = best))"

lemma fcard_prefix:
  "distinct t \<Longrightarrow> k \<le> length t \<Longrightarrow> fcard (fset_of_list (take k t)) = k"
  by (simp add: fcard.rep_eq fset_of_list.rep_eq distinct_card)

lemma prefix_last_index:
  assumes "set t = set (allNodesOf g)" and "1 \<le> k" and "k \<le> length t"
  shows "\<exists>i. nodeIndices g (last (take k t)) = Some i"
proof -
  have "take k t \<noteq> []"
    using assms(2,3) by auto
  then have "last (take k t) \<in> set (take k t)"
    by (rule last_in_set)
  then have "last (take k t) \<in> set (allNodesOf g)"
    using assms(1) by (metis in_set_takeD)
  then show ?thesis
    using nodeIndices_defined [of g "last (take k t)"] by auto
qed

text \<open>The bound is admissible on the prefixes of \<open>t\<close>.\<close>

lemma prefixNode_admissible:
  assumes valid: "validGraph g" and dist: "distinct t" and all: "set t = set (allNodesOf g)"
    and start: "start \<in> set (allNodesOf g)" and k: "1 \<le> k" "k \<le> length t"
  shows "\<exists>f. bbF (prefixNode g start conditions t k) = Some f
           \<and> f \<le> pathWeight g conditions (t @ [start])"
proof -
  have len: "length t = length (allNodesOf g)"
    using dist all distinct_allNodesOf [of g] by (metis distinct_card)
  show ?thesis
  proof (cases "k = length t")
    case True
    obtain li where li: "nodeIndices g (last t) = Some li"
      using prefix_last_index [OF all k] True by auto
    obtain si where si: "nodeIndices g start = Some si"
      using nodeIndices_defined [of g start] start by auto
    have "t \<noteq> []"
      using k by auto
    then have "pathWeight g conditions (t @ [start])
                 = pathWeight g conditions t + legWeight g conditions (last t) start"
      by (rule pathWeight_snoc)
    moreover have "legWeight g conditions (last t) start = weightAt g conditions li si"
      using li si by (simp add: legWeight_def)
    ultimately show ?thesis
      using True li si len fcard_prefix [OF dist, of "length t"]
      by (simp add: bbF_def prefixNode_def gCalculateBound_def)
  next
    case False
    then have "fcard (fset_of_list (take k t)) \<noteq> length (allNodesOf g)"
      using fcard_prefix [OF dist k(2)] len by simp
    from gCalculateBound_open [OF valid this, of start conditions "take k t"]
    obtain b where b: "gCalculateBound g start conditions (take k t) (fset_of_list (take k t)) = Some b"
      "b \<le> 0"
      by blast
    have "pathWeight g conditions (take k t) \<le> pathWeight g conditions (t @ [start])"
      using pathWeight_take_le [OF valid, of conditions k "t @ [start]"] k(2) by simp
    with b show ?thesis
      by (simp add: bbF_def prefixNode_def)
  qed
qed

text \<open>Expanding the prefix of length \<open>k\<close> pushes the prefix of length \<open>k + 1\<close>.\<close>

lemma prefixNode_child:
  assumes valid: "validGraph g" and dist: "distinct t" and all: "set t = set (allNodesOf g)"
    and start: "start \<in> set (allNodesOf g)" and k: "1 \<le> k" "k < length t"
    and ci: "nodeIndices g (last (take k t)) = Some ci"
  shows "prefixNode g start conditions t (Suc k)
           \<in> set (gExpand g start conditions None (prefixNode g start conditions t k) ci)"
proof -
  let ?x = "t ! k"
  have tk: "take (Suc k) t = take k t @ [?x]"
    using k(2) by (rule take_Suc_conv_app_nth)
  have x_node: "?x \<in> set (allNodesOf g)"
    using all k(2) by (metis nth_mem)
  then obtain xi where xi: "nodeIndices g ?x = Some xi"
    using nodeIndices_defined [of g ?x] by auto
  have "distinct (take (Suc k) t)"
    using dist by (rule distinct_take)
  then have "?x \<notin> set (take k t)"
    unfolding tk by simp
  then have new: "?x |\<notin>| fset_of_list (take k t)"
    by (simp add: fset_of_list.rep_eq)
  have ne: "take k t \<noteq> []"
    using k by auto
  have cost: "pathWeight g conditions (take k t @ [?x])
                = pathWeight g conditions (take k t) + weightAt g conditions ci xi"
    using pathWeight_snoc [OF ne, of g conditions ?x] ci xi by (simp add: legWeight_def)
  have vis: "fset_of_list (take k t @ [?x]) = finsert ?x (fset_of_list (take k t))"
    by simp
  have len: "length t = length (allNodesOf g)"
    using dist all distinct_allNodesOf [of g] by (metis distinct_card)
  obtain b where bound: "gCalculateBound g start conditions (take k t @ [?x])
                           (finsert ?x (fset_of_list (take k t))) = Some b"
  proof (cases "Suc k = length t")
    case True
    obtain li where "nodeIndices g (last (take (Suc k) t)) = Some li"
      using prefix_last_index [OF all, of "Suc k"] k(2) by auto
    then have "nodeIndices g ?x = Some li"
      by (simp add: tk)
    moreover obtain si where "nodeIndices g start = Some si"
      using nodeIndices_defined [of g start] start by auto
    moreover have "fcard (fset_of_list (take (Suc k) t)) = length (allNodesOf g)"
      using fcard_prefix [OF dist, of "Suc k"] k(2) len True by simp
    then have "fcard (finsert ?x (fset_of_list (take k t))) = length (allNodesOf g)"
      by (simp add: tk)
    ultimately show ?thesis
      using that by (simp add: gCalculateBound_def)
  next
    case False
    then have "fcard (fset_of_list (take (Suc k) t)) \<noteq> length (allNodesOf g)"
      using fcard_prefix [OF dist, of "Suc k"] k(2) len by simp
    then have "fcard (finsert ?x (fset_of_list (take k t))) \<noteq> length (allNodesOf g)"
      by (simp add: tk)
    from gCalculateBound_open [OF valid this, of start conditions "take k t @ [?x]"] that
    show ?thesis
      by blast
  qed
  have child: "prefixNode g start conditions t (Suc k)
                 = \<lparr>bb_path = take k t @ [?x],
                    bb_cost = pathWeight g conditions (take k t) + weightAt g conditions ci xi,
                    bb_visited = finsert ?x (fset_of_list (take k t)),
                    bb_bound = Some b\<rparr>"
    unfolding prefixNode_def tk cost vis bound by (rule refl)
  let ?body = "\<lambda>nextNode.
                 if nextNode |\<notin>| bb_visited (prefixNode g start conditions t k)
                 then (case nodeIndices g nextNode of
                         None \<Rightarrow> []
                       | Some nextIndex \<Rightarrow>
                           (let newVisited = finsert nextNode (bb_visited (prefixNode g start conditions t k));
                                newPath = bb_path (prefixNode g start conditions t k) @ [nextNode];
                                newCost = bb_cost (prefixNode g start conditions t k)
                                            + weightAt g conditions ci nextIndex;
                                newBound = gCalculateBound g start conditions newPath newVisited
                            in if ltInf2 (map_option (\<lambda>b. newCost + b) newBound) None
                               then [\<lparr>bb_path = newPath, bb_cost = newCost, bb_visited = newVisited,
                                      bb_bound = newBound\<rparr>]
                               else []))
                 else []"
  have "?body ?x = [prefixNode g start conditions t (Suc k)]"
    unfolding child using new xi bound by (simp add: prefixNode_def Let_def)
  then have "prefixNode g start conditions t (Suc k) \<in> set (?body ?x)"
    by simp
  with x_node show ?thesis
    unfolding gExpand_def set_concat set_map by blast
qed

lemma gExpand_bound:
  "s \<in> set (gExpand g start conditions best current ci) \<Longrightarrow>
     bb_bound s = gCalculateBound g start conditions (bb_path s) (bb_visited s)"
  by (auto simp: gExpand_def Let_def split: option.splits if_splits)

text \<open>The three outcomes of one turn of the search loop.\<close>

lemma gbbStep_cases:
  fixes g start conditions st
  defines "cur \<equiv> hd (sort_key bbKey (gq st))"
  defines "rest \<equiv> tl (sort_key bbKey (gq st))"
  obtains
    (drop) "gbbStep g start conditions st = st\<lparr>gq := rest\<rparr>"
      and "\<not> ltInf2 (bbF cur) (gBestCost st) \<or> nodeIndices g (last (bb_path cur)) = None
            \<or> nodeIndices g start = None
            \<or> (\<exists>li si. nodeIndices g (last (bb_path cur)) = Some li \<and> nodeIndices g start = Some si
                  \<and> \<not> ltInf (bb_cost cur + weightAt g conditions li si) (gBestCost st))"
  | (expand) ci where "fcard (bb_visited cur) \<noteq> length (allNodesOf g)"
      and "nodeIndices g (last (bb_path cur)) = Some ci"
      and "gbbStep g start conditions st
             = st\<lparr>gq := rest @ gExpand g start conditions (gBestCost st) cur ci\<rparr>"
  | (tour) li si where "ltInf2 (bbF cur) (gBestCost st)"
      and "fcard (bb_visited cur) = length (allNodesOf g)"
      and "nodeIndices g (last (bb_path cur)) = Some li" and "nodeIndices g start = Some si"
      and "ltInf (bb_cost cur + weightAt g conditions li si) (gBestCost st)"
      and "gbbStep g start conditions st
             = \<lparr>gq = rest,
                gBestSolution = Some \<lparr>bb_path = bb_path cur @ [start],
                                      bb_cost = bb_cost cur + weightAt g conditions li si,
                                      bb_visited = bb_visited cur, bb_bound = Some 0\<rparr>,
                gBestCost = Some (bb_cost cur + weightAt g conditions li si)\<rparr>"
proof (cases "ltInf2 (bbF cur) (gBestCost st)")
  case False
  then show ?thesis
    using drop by (simp add: gbbStep_def Let_def cur_def rest_def)
next
  case lt: True
  show ?thesis
  proof (cases "nodeIndices g (last (bb_path cur))")
    case None
    then show ?thesis
      using drop lt by (simp add: gbbStep_def Let_def cur_def rest_def)
  next
    case (Some li)
    show ?thesis
    proof (cases "fcard (bb_visited cur) = length (allNodesOf g)")
      case False
      then show ?thesis
        using expand [of li] lt Some by (simp add: gbbStep_def Let_def cur_def rest_def)
    next
      case full: True
      show ?thesis
      proof (cases "nodeIndices g start")
        case None
        then show ?thesis
          using drop lt Some full by (simp add: gbbStep_def Let_def cur_def rest_def)
      next
        case si: (Some si)
        show ?thesis
        proof (cases "ltInf (bb_cost cur + weightAt g conditions li si) (gBestCost st)")
          case True
          then show ?thesis
            using tour [of li si] lt Some full si by (simp add: gbbStep_def Let_def cur_def rest_def)
        next
          case False
          then show ?thesis
            using drop lt Some full si by (simp add: gbbStep_def Let_def cur_def rest_def)
        qed
      qed
    qed
  qed
qed

lemma gbbStep_invariant:
  assumes valid: "validGraph g" and dist: "distinct t" and all: "set t = set (allNodesOf g)"
    and start: "start \<in> set (allNodesOf g)"
    and inv: "gbbInv g start conditions t st" and ne: "gq st \<noteq> []"
  shows "gbbInv g start conditions t (gbbStep g start conditions st)"
proof -
  let ?cur = "hd (sort_key bbKey (gq st))"
  let ?rest = "tl (sort_key bbKey (gq st))"
  let ?ok = "\<lambda>s. bb_bound s = gCalculateBound g start conditions (bb_path s) (bb_visited s)"
  have q: "set (gq st) = insert ?cur (set ?rest)"
    using ne by (rule sort_key_hd_tl)
  from inv have okq: "\<forall>s \<in> set (gq st). ?ok s"
    by (simp add: gbbInv_def)
  have ok_rest: "\<forall>s \<in> set ?rest. ?ok s"
    using okq q by auto
  have ok_cur: "?ok ?cur"
    using okq q by auto
  have ok_exp: "\<forall>s \<in> set (?rest @ gExpand g start conditions best ?cur ci). ?ok s" for best ci
    using ok_rest gExpand_bound by auto
  obtain si0 where si0: "nodeIndices g start = Some si0"
    using nodeIndices_defined [of g start] start by auto
  show ?thesis
  proof (cases "gBestCost st")
    case (Some best)
    with inv obtain sol where best: "best \<le> pathWeight g conditions (t @ [start])"
      and sol: "gBestSolution st = Some sol" "bb_cost sol = best"
      by (auto simp: gbbInv_def)
    show ?thesis
    proof (cases rule: gbbStep_cases [of g start conditions st])
      case drop
      then show ?thesis
        using ok_rest Some best sol by (simp add: gbbInv_def)
    next
      case (expand ci)
      then show ?thesis
        using ok_exp [of "gBestCost st" ci] Some best sol by (simp add: gbbInv_def)
    next
      case (tour li si)
      then show ?thesis
        using ok_rest Some best by (simp add: gbbInv_def)
    qed
  next
    case None
    with inv obtain k where nosol: "gBestSolution st = None" and k: "1 \<le> k" "k \<le> length t"
      and pk: "prefixNode g start conditions t k \<in> set (gq st)"
      by (auto simp: gbbInv_def)
    let ?pk = "prefixNode g start conditions t k"
    obtain f where f: "bbF ?pk = Some f" "f \<le> pathWeight g conditions (t @ [start])"
      using prefixNode_admissible [OF valid dist all start k] by blast
    have key: "bbKey ?cur \<le> bbKey ?pk"
      using pk by (rule hd_sort_key_le)
    obtain pi where pi: "nodeIndices g (last (take k t)) = Some pi"
      using prefix_last_index [OF all k] by blast
    have len: "length t = length (allNodesOf g)"
      using dist all distinct_allNodesOf [of g] by (metis distinct_card)
    show ?thesis
    proof (cases rule: gbbStep_cases [of g start conditions st])
      case drop
      have "?cur \<noteq> ?pk"
      proof
        assume eq: "?cur = ?pk"
        have "bb_path ?pk = take k t"
          by (simp add: prefixNode_def)
        with drop(2) eq f pi si0 None show False
          by simp
      qed
      with pk q have "?pk \<in> set ?rest"
        by auto
      with drop(1) ok_rest None nosol k show ?thesis
        by (auto simp: gbbInv_def)
    next
      case (expand ci)
      have "\<exists>k'. 1 \<le> k' \<and> k' \<le> length t
              \<and> prefixNode g start conditions t k'
                  \<in> set (?rest @ gExpand g start conditions None ?cur ci)"
      proof (cases "?cur = ?pk")
        case False
        with pk q have "?pk \<in> set ?rest"
          by auto
        with k show ?thesis
          by auto
      next
        case True
        have path: "bb_path ?pk = take k t" and vis: "bb_visited ?pk = fset_of_list (take k t)"
          by (simp_all add: prefixNode_def)
        have "k \<noteq> length t"
          using expand(1) True vis fcard_prefix [OF dist k(2)] len by auto
        with k have lt: "k < length t"
          by simp
        have "ci = pi"
          using expand(2) True path pi by simp
        with prefixNode_child [OF valid dist all start k(1) lt, of pi conditions] pi True
        have "prefixNode g start conditions t (Suc k)
                \<in> set (gExpand g start conditions None ?cur ci)"
          by simp
        with lt show ?thesis
          by (intro exI [of _ "Suc k"]) simp
      qed
      with expand(3) ok_exp [of None ci] None nosol show ?thesis
        by (simp add: gbbInv_def)
    next
      case (tour li si)
      have "bb_bound ?cur = Some (weightAt g conditions li si)"
        using ok_cur tour(2,3,4) by (simp add: gCalculateBound_def)
      then have "bbKey ?cur = (False, bb_cost ?cur + weightAt g conditions li si)"
        by (simp add: bbKey_def bbF_def)
      moreover have "bbKey ?pk = (False, f)"
        using f by (simp add: bbKey_def)
      ultimately have "bb_cost ?cur + weightAt g conditions li si \<le> f"
        using key by (simp add: less_eq_prod_def)
      with f(2) have "bb_cost ?cur + weightAt g conditions li si \<le> pathWeight g conditions (t @ [start])"
        by simp
      with tour(6) ok_rest show ?thesis
        by (simp add: gbbInv_def)
    qed
  qed
qed

lemma gbbLoop_invariant:
  assumes valid: "validGraph g" and dist: "distinct t" and all: "set t = set (allNodesOf g)"
    and start: "start \<in> set (allNodesOf g)"
  shows "gbbInv g start conditions t st \<Longrightarrow> gbbInv g start conditions t (gbbLoop k g start conditions st)"
proof (induction k arbitrary: st)
  case 0
  then show ?case by simp
next
  case (Suc k)
  show ?case
  proof (cases "gq st = []")
    case True
    with Suc.prems show ?thesis by simp
  next
    case False
    with Suc.prems have "gbbInv g start conditions t (gbbStep g start conditions st)"
      by (intro gbbStep_invariant [OF valid dist all start])
    from Suc.IH [OF this] False show ?thesis
      by simp
  qed
qed

text \<open>
  On a valid graph the distance \<open>branchAndBound\<close> returns is not larger than the distance
  \<open>nearestNeighbor\<close> returns.
\<close>

lemma branchAndBoundG_le_nearestNeighbor:
  assumes valid: "validGraph g" and start: "start \<in> set (allNodesOf g)"
  shows "sr_distance (branchAndBoundG g start conditions)
           \<le> sr_distance (nearestNeighbor g start conditions)"
proof (cases "length (allNodesOf g) > 10")
  case True
  then show ?thesis
    by (simp add: branchAndBoundG_def)
next
  case False
  from nearestNeighbor_tour [OF valid start, of conditions] obtain t where
    hd: "hd t = start" and ne: "t \<noteq> []" and dist: "distinct t" and all: "set t = set (allNodesOf g)"
    and nn: "sr_distance (nearestNeighbor g start conditions) = pathWeight g conditions (t @ [start])"
    by blast
  let ?root = "\<lparr>bb_path = [start], bb_cost = 0, bb_visited = {|start|},
                 bb_bound = gCalculateBound g start conditions [start] {|start|}\<rparr>"
  let ?init = "\<lparr>gq = [?root], gBestSolution = None, gBestCost = None\<rparr>"
  let ?final = "gbbLoop maxIterations g start conditions ?init"
  have "take 1 t = [start]"
    using hd ne by (cases t) simp_all
  then have "prefixNode g start conditions t 1 = ?root"
    by (simp add: prefixNode_def)
  moreover have "1 \<le> length t"
    using ne by (cases t) simp_all
  ultimately have "gbbInv g start conditions t ?init"
    unfolding gbbInv_def by (intro conjI) (simp, simp, intro exI [of _ 1], simp)
  then have inv: "gbbInv g start conditions t ?final"
    by (rule gbbLoop_invariant [OF valid dist all start])
  have nonneg: "0 \<le> pathWeight g conditions (t @ [start])"
    using valid by (rule pathWeight_nonneg)
  have "sr_distance (branchAndBoundG g start conditions) \<le> pathWeight g conditions (t @ [start])"
  proof (cases "gBestCost ?final")
    case None
    with inv have "gBestSolution ?final = None"
      by (simp add: gbbInv_def)
    with False nonneg show ?thesis
      by (simp add: branchAndBoundG_def)
  next
    case (Some best)
    with inv obtain sol where "gBestSolution ?final = Some sol"
      "bb_cost sol \<le> pathWeight g conditions (t @ [start])"
      by (auto simp: gbbInv_def)
    with False show ?thesis
      by (simp add: branchAndBoundG_def)
  qed
  with nn show ?thesis
    by simp
qed

end
